theory Spec2Isabelle
  imports Complex_Main "HOL-Library.Word" "HOL-Library.Log_Nat"
begin

section \<open>JavaScript numbers: IEEE 754 binary64 arithmetic\<close>

text \<open>
  Every \<open>number\<close> of the TypeScript sources is an IEEE 754 double. A finite double is
  modelled by the rational it denotes, and an arithmetic operation by the exact rational
  operation followed by rounding to the nearest double, ties to even (\<open>fl\<close>): 53
  significant bits, gradual underflow below \<open>2 powi (-1022)\<close> with spacing
  \<open>2 powi (-1074)\<close>. Overflow to \<open>Infinity\<close> is not part of \<open>fl\<close>; where the sources
  can produce a non-finite value (a zero divisor) the model says so at that place.
  Integers of magnitude up to \<open>2 ^ 53\<close> are doubles, so the loop counters and array
  lengths of the sources are kept as \<open>nat\<close> and converted where they enter arithmetic.
\<close>

definition pow2 :: "int \<Rightarrow> rat" where
  "pow2 e = (if 0 \<le> e then 2 ^ nat e else 1 / 2 ^ nat (- e))"

definition rne :: "rat \<Rightarrow> int" where
  \<comment> \<open>round to the nearest integer, ties to the even one\<close>
  "rne x = (let f = \<lfloor>x\<rfloor>; d = x - of_int f
            in if d < 1 / 2 then f else if 1 / 2 < d then f + 1
               else if even f then f else f + 1)"

definition ilog2 :: "rat \<Rightarrow> int" where
  \<comment> \<open>the binary exponent of a positive rational: \<open>pow2 (ilog2 x) \<le> x < pow2 (ilog2 x + 1)\<close>\<close>
  "ilog2 x = (case quotient_of x of (p, q) \<Rightarrow>
                let d = bitlen p - bitlen q in if pow2 d \<le> x then d else d - 1)"

definition fl :: "rat \<Rightarrow> rat" where
  "fl x = (if x = 0 then 0
           else let q = max (ilog2 \<bar>x\<bar> - 52) (- 1074)
                in of_int (rne (x / pow2 q)) * pow2 q)"

definition dadd :: "rat \<Rightarrow> rat \<Rightarrow> rat" where
  "dadd x y = fl (x + y)"

definition dsub :: "rat \<Rightarrow> rat \<Rightarrow> rat" where
  "dsub x y = fl (x - y)"

definition dmul :: "rat \<Rightarrow> rat \<Rightarrow> rat" where
  "dmul x y = fl (x * y)"

definition ddiv :: "rat \<Rightarrow> rat \<Rightarrow> rat" where
  \<comment> \<open>\<open>x / y\<close> for \<open>y \<noteq> 0\<close>; a zero divisor is handled where it can occur\<close>
  "ddiv x y = fl (x / y)"

definition Math_floor :: "rat \<Rightarrow> int" where
  "Math_floor x = \<lfloor>x\<rfloor>"

definition Math_round :: "rat \<Rightarrow> int" where
  \<comment> \<open>\<open>Math.round\<close>: the nearest integer, a tie going towards plus infinity\<close>
  "Math_round x = \<lfloor>x + 1 / 2\<rfloor>"

definition read :: "'a list \<Rightarrow> int \<Rightarrow> 'a option" where
  \<comment> \<open>\<open>xs[k]\<close> for an integer \<open>k\<close>: \<open>undefined\<close> (here \<open>None\<close>) outside the array\<close>
  "read xs k = (if 0 \<le> k \<and> k < int (length xs) then Some (xs ! nat k) else None)"


section \<open>resample22To24 (in-progress/slot-machine-agent/agent.ts)\<close>

text \<open>
  The body of the \<open>for\<close> loop at counter \<open>i\<close>. A read outside the array gives
  \<open>undefined\<close>, which turns the interpolated sample and its rounding into \<open>NaN\<close>; the
  model writes \<open>None\<close> for it.
\<close>

definition resample_sample :: "int list \<Rightarrow> rat \<Rightarrow> nat \<Rightarrow> int option" where
  "resample_sample samples r i =
     (let srcIndex = ddiv (of_nat i) r;
          srcIndexFloor = Math_floor srcIndex;
          srcIndexCeil = min (srcIndexFloor + 1) (int (length samples) - 1);
          fraction = dsub srcIndex (of_int srcIndexFloor)
      in case (read samples srcIndexFloor, read samples srcIndexCeil) of
           (Some a, Some b) \<Rightarrow>
             Some (Math_round (dadd (dmul (of_int a) (dsub 1 fraction)) (dmul (of_int b) fraction)))
         | _ \<Rightarrow> None)"

function resample_loop :: "int list \<Rightarrow> rat \<Rightarrow> nat \<Rightarrow> nat \<Rightarrow> int option list \<Rightarrow> int option list" where
  "resample_loop samples r outputLength i resampled =
     (if i < outputLength
      then resample_loop samples r outputLength (Suc i) (resampled @ [resample_sample samples r i])
      else resampled)"
  by pat_completeness auto
termination
  by (relation "measure (\<lambda>(samples, r, outputLength, i, resampled). outputLength - i)") auto

declare resample_loop.simps [simp del]

text \<open>
  The samples are JavaScript numbers; the model takes the integers among them, which are
  doubles up to \<open>2 ^ 53\<close> in magnitude. An array has fewer than \<open>2 ^ 32\<close> elements:
  \<open>resampled.push\<close> throws a RangeError when the array would reach that length, so the
  function returns only when its output has fewer than \<open>2 ^ 32\<close> elements, and then it
  returns the list below.
\<close>

definition resample22To24 :: "int list \<Rightarrow> int option list" where
  "resample22To24 samples =
     (let inputRate = 22050;
          outputRate = 24000;
          r = ddiv outputRate inputRate;
          outputLength = nat (Math_floor (dmul (of_nat (length samples)) r))
      in resample_loop samples r outputLength 0 [])"

text \<open>
  \<open>ttsNode\<close> stores the resampled chunk with \<open>new Int16Array(resampled)\<close>: each number is
  converted with ToInt16, which wraps modulo \<open>2 ^ 16\<close> and sends \<open>NaN\<close> to 0.
\<close>

definition Int16Array_from :: "int option list \<Rightarrow> 16 word list" where
  "Int16Array_from xs = map (\<lambda>v. case v of Some k \<Rightarrow> word_of_int k | None \<Rightarrow> 0) xs"


section \<open>AudioResampler (not-working/bad-liveavatar-attempt/liveavatar-audio-output.ts)\<close>

datatype error = RangeError

record AudioFrame =
  data :: "16 word list"
  sampleRate :: rat
  channels :: rat
  samplesPerChannel :: "rat option"

record AudioResampler =
  ratio :: rat
  buffer :: "rat list"
  inputRate :: rat
  outputRate :: rat

definition AudioResampler_new :: "rat \<Rightarrow> rat \<Rightarrow> AudioResampler" where
  \<comment> \<open>the constructor, for a non-zero output rate; at a zero output rate the ratio of the
      code is \<open>Infinity\<close> or \<open>NaN\<close>, which no value of the model stands for\<close>
  "AudioResampler_new inRate outRate =
     \<lparr>ratio = ddiv inRate outRate, buffer = [], inputRate = inRate, outputRate = outRate\<rparr>"

text \<open>
  \<open>Math.floor(inputSamples.length / this.ratio)\<close> and the allocation
  \<open>new Int16Array(outputSampleCount)\<close>, which throws a RangeError for a negative or
  infinite length and for one above \<open>2 ^ 53 - 1\<close>. An engine also throws a RangeError
  for a smaller length when it cannot allocate the array; that depends on the memory it
  has and is not in the model, where \<open>Inr n\<close> stands for an allocation of \<open>n\<close> samples
  that succeeded. With a zero ratio the quotient is \<open>Infinity\<close>, or \<open>NaN\<close> for an empty
  input, which allocates an empty array.
\<close>

definition outputSampleCount_of :: "nat \<Rightarrow> rat \<Rightarrow> error + nat" where
  "outputSampleCount_of n r =
     (if r = 0 then (if n = 0 then Inr 0 else Inl RangeError)
      else let c = Math_floor (ddiv (of_nat n) r)
           in if c < 0 \<or> 2 ^ 53 \<le> c then Inl RangeError else Inr (nat c))"

text \<open>
  The body of the interpolation loop: the value stored at \<open>outputData[i]\<close>. The store
  into the \<open>Int16Array\<close> converts with ToInt16; a \<open>NaN\<close> (from a read outside
  \<open>inputSamples\<close>) is stored as 0.
\<close>

definition push_sample :: "16 word list \<Rightarrow> rat \<Rightarrow> nat \<Rightarrow> 16 word" where
  "push_sample inputSamples r i =
     (let inputIndex = dmul (of_nat i) r;
          index0 = Math_floor inputIndex;
          index1 = min (index0 + 1) (int (length inputSamples) - 1);
          fraction = dsub inputIndex (of_int index0)
      in case (read inputSamples index0, read inputSamples index1) of
           (Some a, Some b) \<Rightarrow>
             word_of_int (Math_round (dadd (dmul (of_int (sint a)) (dsub 1 fraction))
                                           (dmul (of_int (sint b)) fraction)))
         | _ \<Rightarrow> 0)"

function push_loop :: "16 word list \<Rightarrow> rat \<Rightarrow> nat \<Rightarrow> nat \<Rightarrow> 16 word list \<Rightarrow> 16 word list" where
  "push_loop inputSamples r outputSampleCount i outputData =
     (if i < outputSampleCount
      then push_loop inputSamples r outputSampleCount (Suc i)
             (outputData[i := push_sample inputSamples r i])
      else outputData)"
  by pat_completeness auto
termination
  by (relation "measure (\<lambda>(inputSamples, r, outputSampleCount, i, outputData). outputSampleCount - i)")
    auto

declare push_loop.simps [simp del]

text \<open>
  \<open>push\<close> works on objects: the frame it is given and the frame it returns are
  references. The store is the list of the frame objects allocated so far, an address
  is an index into it, and a new object is appended. \<open>push\<close> takes the resampler
  object and the store, and returns them together with its result: the list of the
  addresses of the returned frames, or the exception thrown. The division
  \<open>outputSampleCount / frame.channels\<close> is not finite (\<open>None\<close>) for zero channels, and
  when the count itself is \<open>NaN\<close>: at a zero ratio, where only an empty frame gets this
  far.
\<close>

definition push ::
  "AudioResampler \<Rightarrow> AudioFrame list \<Rightarrow> nat \<Rightarrow> (error + nat list) \<times> AudioResampler \<times> AudioFrame list" where
  "push this store frame =
     (if sampleRate (store ! frame) = outputRate this then (Inr [frame], this, store)
      else
        let inputSamples = data (store ! frame)
        in case outputSampleCount_of (length inputSamples) (ratio this) of
             Inl e \<Rightarrow> (Inl e, this, store)
           | Inr outputSampleCount \<Rightarrow>
               let outputData = push_loop inputSamples (ratio this) outputSampleCount 0
                                  (replicate outputSampleCount 0);
                   resampled = \<lparr>data = outputData,
                                sampleRate = outputRate this,
                                channels = channels (store ! frame),
                                samplesPerChannel =
                                  (if channels (store ! frame) = 0 \<or> ratio this = 0 then None
                                   else Some (ddiv (of_nat outputSampleCount) (channels (store ! frame))))\<rparr>
               in (Inr [length store], this, store @ [resampled]))"

definition returned_frames ::
  "(error + nat list) \<times> AudioResampler \<times> AudioFrame list \<Rightarrow> AudioFrame list option" where
  \<comment> \<open>the frame objects a call returned, read from the store it left\<close>
  "returned_frames res =
     (case res of (Inr as, this, store) \<Rightarrow> Some (map (\<lambda>a. store ! a) as) | (Inl e, this, store) \<Rightarrow> None)"


section \<open>The decimation loop of LiveAvatarForwarder.forwardAudio\<close>

text \<open>
  \<open>inputData[i * resampleRatio]\<close> is a read at a number: it finds an element when the
  number is an integer inside the array and is \<open>undefined\<close> otherwise, which the
  \<open>Int16Array\<close> store turns into 0.
\<close>

definition read_at :: "'a list \<Rightarrow> rat \<Rightarrow> 'a option" where
  "read_at xs x = (if x = of_int \<lfloor>x\<rfloor> then read xs \<lfloor>x\<rfloor> else None)"

function forwardAudio_loop :: "16 word list \<Rightarrow> rat \<Rightarrow> nat \<Rightarrow> nat \<Rightarrow> 16 word list \<Rightarrow> 16 word list" where
  "forwardAudio_loop inputData resampleRatio outputLength i outputData =
     (if i < outputLength
      then forwardAudio_loop inputData resampleRatio outputLength (Suc i)
             (outputData[i := (case read_at inputData (dmul (of_nat i) resampleRatio) of
                                 Some v \<Rightarrow> v | None \<Rightarrow> 0)])
      else outputData)"
  by pat_completeness auto
termination
  by (relation "measure (\<lambda>(inputData, resampleRatio, outputLength, i, outputData). outputLength - i)")
    auto

declare forwardAudio_loop.simps [simp del]

definition forwardAudio_downsample :: "16 word list \<Rightarrow> 16 word list" where
  "forwardAudio_downsample inputData =
     (let resampleRatio = 2;
          outputLength = nat (Math_floor (ddiv (of_nat (length inputData)) resampleRatio))
      in forwardAudio_loop inputData resampleRatio outputLength 0 (replicate outputLength 0))"


section \<open>The specification's resampler\<close>

text \<open>
  The specification states the algorithm over the rationals: output index \<open>i\<close> reads the
  source position \<open>i / ratio\<close> with \<open>ratio = output_rate / input_rate\<close>, interpolates
  linearly between the floor sample and the clamped ceiling sample, and rounds.
\<close>

definition spec_length :: "nat \<Rightarrow> nat \<Rightarrow> nat \<Rightarrow> nat" where
  "spec_length n input_rate output_rate = n * output_rate div input_rate"

definition spec_sample :: "nat \<Rightarrow> nat \<Rightarrow> int list \<Rightarrow> nat \<Rightarrow> int" where
  "spec_sample input_rate output_rate xs i =
     (let position = of_nat i / (of_nat output_rate / of_nat input_rate) :: rat;
          f = \<lfloor>position\<rfloor>;
          c = min (f + 1) (int (length xs) - 1);
          frac = position - of_int f
      in \<lfloor>of_int (xs ! nat f) * (1 - frac) + of_int (xs ! nat c) * frac + 1 / 2\<rfloor>)"

text \<open>
  The same formula with every operation carried out in double arithmetic, as a program
  that follows the specification's words would compute it.
\<close>

definition spec_sample_double :: "nat \<Rightarrow> nat \<Rightarrow> int list \<Rightarrow> nat \<Rightarrow> int" where
  "spec_sample_double input_rate output_rate xs i =
     (let position = ddiv (of_nat i) (ddiv (of_nat output_rate) (of_nat input_rate));
          f = \<lfloor>position\<rfloor>;
          c = min (f + 1) (int (length xs) - 1);
          frac = dsub position (of_int f)
      in Math_round (dadd (dmul (of_int (xs ! nat f)) (dsub 1 frac))
                          (dmul (of_int (xs ! nat c)) frac)))"

text \<open>
  The exact linear interpolation of the samples at a rational source position \<open>s\<close>,
  between the floor sample and the clamped ceiling sample. The proofs compare the
  double computation of the code with it.
\<close>

definition interpolate_exact :: "int list \<Rightarrow> rat \<Rightarrow> rat" where
  "interpolate_exact xs s =
     (let k = \<lfloor>s\<rfloor>;
          c = min (k + 1) (int (length xs) - 1);
          f0 = s - of_int k
      in of_int (xs ! nat k) * (1 - f0) + of_int (xs ! nat c) * f0)"

definition approximately :: "int \<Rightarrow> int \<Rightarrow> bool" where
  \<comment> \<open>equal "allowing rounding": at most one unit apart\<close>
  "approximately x y = (\<bar>x - y\<bar> \<le> 1)"


section \<open>Rounding to a double: error bound and exact cases\<close>

lemma pow2_powi: "pow2 e = 2 powi e"
  by (simp add: pow2_def power_int_def field_simps)

lemma pow2_pos: "0 < pow2 e"
  by (simp add: pow2_powi)

lemma pow2_add: "pow2 (a + b) = pow2 a * pow2 b"
  by (simp add: pow2_powi power_int_add)

lemma pow2_mono: "a \<le> b \<Longrightarrow> pow2 a \<le> pow2 b"
  by (simp add: pow2_powi power_int_increasing)

lemma rne_err: "\<bar>of_int (rne x) - x\<bar> \<le> 1 / 2"
proof -
  have "of_int \<lfloor>x\<rfloor> \<le> x" "x < of_int \<lfloor>x\<rfloor> + 1" by linarith+
  then show ?thesis
    by (auto simp: rne_def Let_def abs_le_iff)
qed

lemma rne_int: "rne (of_int k) = k"
  by (simp add: rne_def)

lemma rne_nonneg: "0 \<le> x \<Longrightarrow> 0 \<le> rne x"
  by (auto simp: rne_def Let_def)

lemma ilog2_bounds:
  assumes "0 < x"
  shows "pow2 (ilog2 x) \<le> x \<and> x < pow2 (ilog2 x + 1)"
proof -
  obtain p q where pq: "quotient_of x = (p, q)" by (cases "quotient_of x")
  then have q: "0 < q" and x: "x = of_int p / of_int q"
    using quotient_of_denom_pos quotient_of_div by blast+
  from assms x q have p: "0 < p" by (simp add: zero_less_divide_iff)
  define bp where "bp = bitlen p"
  define bq where "bq = bitlen q"
  have bp1: "1 \<le> bp" and bq1: "1 \<le> bq"
    using p q bitlen_eq_zero_iff[of p] bitlen_eq_zero_iff[of q] bitlen_nonneg[of p] bitlen_nonneg[of q]
    by (auto simp: bp_def bq_def)
  have pb: "(2::int) ^ nat (bp - 1) \<le> p" "p < 2 ^ nat bp"
    using bitlen_bounds[OF p] by (auto simp: bp_def)
  have qb: "(2::int) ^ nat (bq - 1) \<le> q" "q < 2 ^ nat bq"
    using bitlen_bounds[OF q] by (auto simp: bq_def)
  have pw: "pow2 (bp - 1) = of_int (2 ^ nat (bp - 1))" "pow2 bp = of_int (2 ^ nat bp)"
    "pow2 (bq - 1) = of_int (2 ^ nat (bq - 1))" "pow2 bq = of_int (2 ^ nat bq)"
    using bp1 bq1 by (simp_all add: pow2_def)
  have pr: "pow2 (bp - 1) \<le> of_int p" "of_int p < pow2 bp"
    unfolding pw using pb by (simp_all only: of_int_le_iff of_int_less_iff)
  have qr: "pow2 (bq - 1) \<le> of_int q" "of_int q < pow2 bq"
    unfolding pw using qb by (simp_all only: of_int_le_iff of_int_less_iff)
  have qpos: "(0::rat) < of_int q" using q by simp
  have up: "x < pow2 (bp - bq + 1)"
  proof -
    have "of_int p < pow2 bp" by (rule pr)
    also have "pow2 bp = pow2 (bp - bq + 1) * pow2 (bq - 1)"
      by (simp flip: pow2_add)
    also have "\<dots> \<le> pow2 (bp - bq + 1) * of_int q"
      using qr(1) pow2_pos[of "bp - bq + 1"] by (simp add: mult_left_mono)
    finally show ?thesis using qpos by (simp add: x pos_divide_less_eq)
  qed
  have lo: "pow2 (bp - bq - 1) < x"
  proof -
    have "pow2 (bp - bq - 1) * of_int q < pow2 (bp - bq - 1) * pow2 bq"
      using qr(2) pow2_pos[of "bp - bq - 1"] by (simp add: mult_strict_left_mono)
    also have "\<dots> = pow2 (bp - 1)" by (simp flip: pow2_add)
    also have "\<dots> \<le> of_int p" by (rule pr)
    finally show ?thesis using qpos by (simp add: x pos_less_divide_eq)
  qed
  show ?thesis
    using up lo by (auto simp: ilog2_def pq Let_def bp_def bq_def less_imp_le not_le)
qed

lemma fl_abs_err:
  "\<bar>fl x - x\<bar> \<le> pow2 (max (ilog2 \<bar>x\<bar> - 52) (- 1074)) / 2"
proof (cases "x = 0")
  case True
  then show ?thesis using pow2_pos[of "max (ilog2 \<bar>x\<bar> - 52) (- 1074)"] by (simp add: fl_def)
next
  case False
  define q where "q = max (ilog2 \<bar>x\<bar> - 52) (- 1074)"
  have qp: "0 < pow2 q" by (rule pow2_pos)
  have "fl x - x = (of_int (rne (x / pow2 q)) - x / pow2 q) * pow2 q"
    using False qp by (simp add: fl_def q_def Let_def field_simps)
  then have "\<bar>fl x - x\<bar> = \<bar>of_int (rne (x / pow2 q)) - x / pow2 q\<bar> * pow2 q"
    using qp by (simp add: abs_mult)
  also have "\<dots> \<le> (1 / 2) * pow2 q"
    using rne_err[of "x / pow2 q"] qp by (intro mult_right_mono) simp_all
  finally show ?thesis by (simp add: q_def)
qed

text \<open>The error of one rounding, for an argument of magnitude at most \<open>M\<close>.\<close>

lemma fl_err:
  assumes "1 \<le> M" "\<bar>x\<bar> \<le> M"
  shows "\<bar>fl x - x\<bar> \<le> M / 2 ^ 52"
proof (cases "x = 0")
  case True
  then show ?thesis using assms by (simp add: fl_def)
next
  case False
  then have ax: "0 < \<bar>x\<bar>" by simp
  define e where "e = ilog2 \<bar>x\<bar>"
  have le: "pow2 e \<le> \<bar>x\<bar>" using ilog2_bounds[OF ax] by (simp add: e_def)
  have "pow2 (max (e - 52) (- 1074)) \<le> M / 2 ^ 52"
  proof (cases "e - 52 \<le> - 1074")
    case True
    then have "pow2 (max (e - 52) (- 1074)) = pow2 (- 1074)" by (simp add: max_def)
    also have "\<dots> \<le> pow2 (- 52)" by (rule pow2_mono) simp
    also have "\<dots> = 1 / 2 ^ 52" by (simp add: pow2_def)
    also have "\<dots> \<le> M / 2 ^ 52" using assms(1) by (simp add: divide_right_mono)
    finally show ?thesis .
  next
    case False
    then have "pow2 (max (e - 52) (- 1074)) = pow2 (e + (- 52))" by (simp add: max_def)
    also have "\<dots> = pow2 e * pow2 (- 52)" by (rule pow2_add)
    also have "pow2 (- 52) = 1 / 2 ^ 52" by (simp add: pow2_def)
    finally have "pow2 (max (e - 52) (- 1074)) = pow2 e * (1 / 2 ^ 52)" .
    also have "\<dots> \<le> M * (1 / 2 ^ 52)" using le assms(2) by (intro mult_right_mono) simp_all
    finally show ?thesis by simp
  qed
  moreover have "0 < pow2 (max (e - 52) (- 1074))" by (rule pow2_pos)
  ultimately show ?thesis using fl_abs_err[of x] by (simp add: e_def)
qed

lemma fl_nonneg:
  assumes "0 \<le> x"
  shows "0 \<le> fl x"
proof (cases "x = 0")
  case True
  then show ?thesis by (simp add: fl_def)
next
  case False
  define q where "q = max (ilog2 \<bar>x\<bar> - 52) (- 1074)"
  have "0 \<le> x / pow2 q" using assms pow2_pos[of q] by simp
  then have "0 \<le> rne (x / pow2 q)" by (rule rne_nonneg)
  then have "(0::rat) \<le> of_int (rne (x / pow2 q)) * pow2 q"
    using pow2_pos[of q] by simp
  then show ?thesis using False by (simp add: fl_def q_def Let_def)
qed

text \<open>Integers below \<open>2 ^ 53\<close> in magnitude, and their quotients by powers of two, are doubles.\<close>

lemma pow2_neg_nat: "pow2 (- int n) = 1 / 2 ^ n"
  by (simp add: pow2_powi power_int_minus field_simps)

lemma fl_dyadic:
  assumes "\<bar>k\<bar> < 2 ^ 53" "j \<le> 1022"
  shows "fl (of_int k / 2 ^ j) = of_int k / 2 ^ j"
proof (cases "k = 0")
  case True
  then show ?thesis by (simp add: fl_def)
next
  case False
  define x :: rat where "x = of_int k / 2 ^ j"
  have ax: "0 < \<bar>x\<bar>" using False by (simp add: x_def)
  define e where "e = ilog2 \<bar>x\<bar>"
  have b: "pow2 e \<le> \<bar>x\<bar>" "\<bar>x\<bar> < pow2 (e + 1)"
    using ilog2_bounds[OF ax] by (simp_all add: e_def)
  have pj: "pow2 (- int j) = 1 / 2 ^ j" by (rule pow2_neg_nat)
  have ak: "\<bar>x\<bar> = of_int \<bar>k\<bar> * pow2 (- int j)" by (simp add: x_def pj abs_divide)
  have "(of_int \<bar>k\<bar> :: rat) < 2 ^ 53" using assms(1) by (simp only: of_int_less_numeral_power_cancel_iff)
  then have "\<bar>x\<bar> < 2 ^ 53 * pow2 (- int j)"
    unfolding ak using pow2_pos[of "- int j"] by (simp only: mult_strict_right_mono)
  also have "\<dots> = pow2 (53 - int j)"
    using pow2_add[of 53 "- int j"] by (simp add: pow2_def)
  finally have "pow2 e < pow2 (53 - int j)" using b(1) by simp
  then have e_hi: "e \<le> 52 - int j" using pow2_mono[of "53 - int j" e] by (cases "e \<le> 52 - int j") auto
  have "1 \<le> \<bar>k\<bar>" using False by simp
  then have "(1::rat) \<le> of_int \<bar>k\<bar>" by (simp only: of_int_1_le_iff)
  then have "1 * pow2 (- int j) \<le> \<bar>x\<bar>"
    unfolding ak using pow2_pos[of "- int j"] by (simp only: mult_right_mono less_imp_le)
  then have "pow2 (- int j) < pow2 (e + 1)" using b(2) by simp
  then have e_lo: "- int j \<le> e" using pow2_mono[of "e + 1" "- int j"] by (cases "- int j \<le> e") auto
  define m where "m = nat (52 - int j - e)"
  have q: "max (e - 52) (- 1074) = - int (m + j)" using e_lo e_hi assms(2) by (simp add: m_def max_def)
  have p: "pow2 (- int (m + j)) = 1 / 2 ^ (m + j)" by (rule pow2_neg_nat)
  have "x / pow2 (- int (m + j)) = x * 2 ^ (m + j)" unfolding p by simp
  also have "\<dots> = of_int (k * 2 ^ m)" by (simp add: x_def power_add)
  finally have y: "x / pow2 (- int (m + j)) = of_int (k * 2 ^ m)" .
  have "fl x = of_int (rne (x / pow2 (- int (m + j)))) * pow2 (- int (m + j))"
    using ax by (simp only: fl_def e_def[symmetric] q Let_def) simp
  also have "\<dots> = of_int (k * 2 ^ m) * pow2 (- int (m + j))"
    by (simp only: y rne_int)
  also have "\<dots> = of_int (k * 2 ^ m) * (1 / 2 ^ (m + j))"
    by (simp only: p)
  also have "\<dots> = x" by (simp add: x_def power_add)
  finally show ?thesis by (simp add: x_def)
qed

lemma fl_int:
  "\<bar>k\<bar> < 2 ^ 53 \<Longrightarrow> fl (of_int k) = of_int k"
  using fl_dyadic[of k 0] by simp

lemma fl_nat: "n < 2 ^ 53 \<Longrightarrow> fl (of_nat n) = of_nat n"
  using fl_int[of "int n"] by simp

lemma fl_half_nat: "n < 2 ^ 53 \<Longrightarrow> fl (of_nat n / 2) = of_nat n / 2"
  using fl_dyadic[of "int n" 1] by simp


section \<open>The loops, index by index\<close>

lemma resample_loop_eq:
  "resample_loop samples r n i acc = acc @ map (resample_sample samples r) [i..<n]"
proof (induction samples r n i acc rule: resample_loop.induct)
  case (1 samples r outputLength i resampled)
  show ?case
  proof (cases "i < outputLength")
    case True
    then show ?thesis
      using 1 by (subst resample_loop.simps) (simp add: upt_conv_Cons)
  next
    case False
    then show ?thesis by (subst resample_loop.simps) simp
  qed
qed

lemma push_loop_eq:
  "i \<le> n \<Longrightarrow> length out = n \<Longrightarrow>
   push_loop xs r n i out = take i out @ map (push_sample xs r) [i..<n]"
proof (induction xs r n i out rule: push_loop.induct)
  case (1 inputSamples r outputSampleCount i outputData)
  show ?case
  proof (cases "i < outputSampleCount")
    case True
    then show ?thesis
      using 1 by (subst push_loop.simps) (simp add: upt_conv_Cons take_Suc_conv_app_nth)
  next
    case False
    then show ?thesis using 1(2,3) by (subst push_loop.simps) simp
  qed
qed

lemma push_loop_all:
  "push_loop xs r n 0 (replicate n 0) = map (push_sample xs r) [0..<n]"
  by (simp add: push_loop_eq)

section \<open>What a call of push returns and leaves behind\<close>

lemma push_noop:
  "sampleRate (store ! frame) = outputRate this \<Longrightarrow> push this store frame = (Inr [frame], this, store)"
  by (simp add: push_def)

lemma push_resamples:
  assumes "sampleRate (store ! frame) \<noteq> outputRate this"
    and "outputSampleCount_of (length (data (store ! frame))) (ratio this) = Inr n"
  shows "push this store frame =
           (Inr [length store], this,
            store @ [\<lparr>data = map (push_sample (data (store ! frame)) (ratio this)) [0..<n],
                       sampleRate = outputRate this,
                       channels = channels (store ! frame),
                       samplesPerChannel = (if channels (store ! frame) = 0 \<or> ratio this = 0 then None
                          else Some (ddiv (of_nat n) (channels (store ! frame))))\<rparr>])"
  unfolding push_def Let_def assms(2) push_loop_all using assms(1) by simp

lemma push_throws:
  assumes "sampleRate (store ! frame) \<noteq> outputRate this"
    and "outputSampleCount_of (length (data (store ! frame))) (ratio this) = Inl e"
  shows "push this store frame = (Inl e, this, store)"
  using assms by (simp add: push_def)

lemma returned_frames_resampled:
  "returned_frames (Inr [length store], this, store @ [fr]) = Some [fr]"
  by (simp add: returned_frames_def)

lemma push_cases:
  obtains (noop) "push this store frame = (Inr [frame], this, store)"
  | (thrown) e where "push this store frame = (Inl e, this, store)"
  | (resampled) fr where "push this store frame = (Inr [length store], this, store @ [fr])"
proof (cases "sampleRate (store ! frame) = outputRate this")
  case True
  then show ?thesis using noop push_noop by blast
next
  case False
  show ?thesis
  proof (cases "outputSampleCount_of (length (data (store ! frame))) (ratio this)")
    case (Inl e)
    then show ?thesis using thrown push_throws[OF False] by blast
  next
    case (Inr n)
    then show ?thesis using resampled push_resamples[OF False] by blast
  qed
qed

lemma push_this_unchanged: "fst (snd (push this store frame)) = this"
  by (rule push_cases[of this store frame]) simp_all

lemma push_store_extends: "take (length store) (snd (snd (push this store frame))) = store"
  by (rule push_cases[of this store frame]) simp_all


lemma returned_frames_push:
  "returned_frames (push this store frame) =
     (if sampleRate (store ! frame) = outputRate this then Some [store ! frame]
      else case outputSampleCount_of (length (data (store ! frame))) (ratio this) of
             Inl e \<Rightarrow> None
           | Inr n \<Rightarrow>
               Some [\<lparr>data = map (push_sample (data (store ! frame)) (ratio this)) [0..<n],
                       sampleRate = outputRate this,
                       channels = channels (store ! frame),
                       samplesPerChannel = (if channels (store ! frame) = 0 \<or> ratio this = 0 then None
                          else Some (ddiv (of_nat n) (channels (store ! frame))))\<rparr>])"
proof (cases "sampleRate (store ! frame) = outputRate this")
  case True
  then show ?thesis by (simp add: push_noop returned_frames_def)
next
  case False
  show ?thesis
  proof (cases "outputSampleCount_of (length (data (store ! frame))) (ratio this)")
    case (Inl e)
    then show ?thesis using False by (simp add: push_throws returned_frames_def)
  next
    case (Inr n)
    then show ?thesis using False by (simp add: push_resamples returned_frames_resampled)
  qed
qed

lemma push_store_nth:
  "a < length store \<Longrightarrow> snd (snd (push this store frame)) ! a = store ! a"
  by (rule push_cases[of this store frame]) (simp_all add: nth_append)


section \<open>Exact cases of the interpolation\<close>

lemma fl_one: "fl 1 = 1"
  using fl_int[of 1] by simp

lemma Math_round_int: "Math_round (of_int k) = k"
  by (simp add: Math_round_def) linarith

lemma sint16_small: "\<bar>sint (w :: 16 word)\<bar> < 2 ^ 53"
proof -
  have "- (2 ^ 15) \<le> sint w" "sint w < 2 ^ 15"
    using sint_ge[of w] sint_lt[of w] by simp_all
  then show ?thesis by simp
qed

lemma fl_zero: "fl 0 = 0"
  by (simp add: fl_def)

lemma interp_exact:
  assumes "\<bar>k\<bar> < 2 ^ 53"
  shows "dadd (dmul (of_int k) (dsub 1 0)) (dmul y 0) = of_int k"
proof -
  have "dsub 1 0 = 1" by (simp add: dsub_def fl_one)
  moreover have "dmul (of_int k) 1 = of_int k" using fl_int[OF assms] by (simp add: dmul_def)
  moreover have "dmul y 0 = 0" by (simp add: dmul_def fl_zero)
  moreover have "dadd (of_int k) 0 = of_int k" using fl_int[OF assms] by (simp add: dadd_def)
  ultimately show ?thesis by (simp only:)
qed

lemma interpolate_at_sample:
  "word_of_int (Math_round (dadd (dmul (of_int (sint (a :: 16 word))) (dsub 1 0))
                                 (dmul (of_int (sint (b :: 16 word))) 0))) = a"
  by (simp only: interp_exact[OF sint16_small] Math_round_int) simp

lemma read_nat: "k < length xs \<Longrightarrow> read xs (int k) = Some (xs ! k)"
  by (simp add: read_def)

lemma read_clamped:
  "k < length xs \<Longrightarrow> \<exists>b. read xs (min (int k + 1) (int (length xs) - 1)) = Some b"
  by (auto simp: read_def min_def)

lemma push_sample_integer_ratio:
  assumes "i * m < length xs" "length xs < 2 ^ 53"
  shows "push_sample xs (of_nat m) i = xs ! (i * m)"
proof -
  have im: "i * m < 2 ^ 53" using assms by simp
  have idx: "dmul (of_nat i) (of_nat m) = of_nat (i * m)"
    using fl_nat[OF im] by (simp add: dmul_def)
  have fl0: "Math_floor (of_nat (i * m)) = int (i * m)"
    by (simp only: Math_floor_def floor_of_nat)
  have fr: "dsub (of_nat (i * m)) (of_int (int (i * m))) = 0"
    by (simp add: dsub_def fl_def)
  have r0: "read xs (int (i * m)) = Some (xs ! (i * m))"
    using assms(1) by (rule read_nat)
  obtain b where r1: "read xs (min (int (i * m) + 1) (int (length xs) - 1)) = Some b"
    using read_clamped[OF assms(1)] by blast
  show ?thesis
    unfolding push_sample_def idx fl0 Let_def fr r0 r1
    by (simp only: interpolate_at_sample option.case prod.case)
qed

lemma forwardAudio_loop_eq:
  "i \<le> n \<Longrightarrow> length out = n \<Longrightarrow>
   forwardAudio_loop xs r n i out =
     take i out @ map (\<lambda>i. case read_at xs (dmul (of_nat i) r) of Some v \<Rightarrow> v | None \<Rightarrow> 0) [i..<n]"
proof (induction xs r n i out rule: forwardAudio_loop.induct)
  case (1 inputData resampleRatio outputLength i outputData)
  show ?case
  proof (cases "i < outputLength")
    case True
    then show ?thesis
      using 1 by (subst forwardAudio_loop.simps) (simp add: upt_conv_Cons take_Suc_conv_app_nth)
  next
    case False
    then show ?thesis using 1(2,3) by (subst forwardAudio_loop.simps) simp
  qed
qed

lemma half_count:
  assumes "n < 2 ^ 53"
  shows "Math_floor (ddiv (of_nat n) 2) = int (n div 2)"
proof -
  have "ddiv (of_nat n) 2 = of_nat n / 2" using fl_half_nat[OF assms] by (simp only: ddiv_def)
  moreover have "\<lfloor>(of_nat n :: rat) / 2\<rfloor> = int (n div 2)"
    using floor_divide_of_nat_eq[of n 2, where ?'a = rat] by simp
  ultimately show ?thesis by (simp only: Math_floor_def)
qed

lemma forwardAudio_downsample_eq:
  assumes "length xs < 2 ^ 53"
  shows "forwardAudio_downsample xs = map (\<lambda>i. xs ! (i * 2)) [0..<length xs div 2]"
proof -
  have "(case read_at xs (dmul (of_nat i) 2) of Some v \<Rightarrow> v | None \<Rightarrow> 0) = xs ! (i * 2)"
    if "i < length xs div 2" for i
  proof -
    have i2: "i * 2 < length xs" using that by simp
    then have "i * 2 < 2 ^ 53" using assms by simp
    then have "dmul (of_nat i) 2 = of_nat (i * 2)" using fl_nat[of "i * 2"] by (simp add: dmul_def)
    moreover have "read_at xs (of_nat (i * 2)) = Some (xs ! (i * 2))"
      using read_nat[OF i2] by (simp only: read_at_def floor_of_nat of_int_of_nat_eq) simp
    ultimately show ?thesis by simp
  qed
  then show ?thesis
    by (simp add: forwardAudio_downsample_def half_count[OF assms] forwardAudio_loop_eq Let_def)
qed

lemma ratio_48000_24000: "ratio (AudioResampler_new 48000 24000) = 2"
  using fl_int[of 2] by (simp add: AudioResampler_new_def ddiv_def)

lemma count_at_ratio_2:
  "n < 2 ^ 53 \<Longrightarrow> outputSampleCount_of n 2 = Inr (n div 2)"
  using half_count[of n] by (simp add: outputSampleCount_of_def Let_def) 

lemma ratio_equal_rates: "rate \<noteq> 0 \<Longrightarrow> ratio (AudioResampler_new rate rate) = 1"
  by (simp add: AudioResampler_new_def ddiv_def fl_one)

lemma outputRate_new: "outputRate (AudioResampler_new i o') = o'"
  by (simp add: AudioResampler_new_def)

lemma ratio_new: "ratio (AudioResampler_new i o') = ddiv i o'"
  by (simp add: AudioResampler_new_def)

lemma count_at_ratio_1:
  "n < 2 ^ 53 \<Longrightarrow> outputSampleCount_of n 1 = Inr n"
  using fl_nat[of n] by (simp add: outputSampleCount_of_def Let_def ddiv_def Math_floor_def)


section \<open>AudioResampler.push: effects\<close>

text \<open>
  Claim C7. A call of \<open>push\<close> leaves the resampler object as it was (its fields
  \<open>ratio\<close>, \<open>buffer\<close>, \<open>inputRate\<close>, \<open>outputRate\<close>), and leaves every object of
  the store as it was, the argument frame and its sample data among them: the store
  only grows. The returned frames depend only on the argument frame's contents and on
  the resampler's ratio and output rate (both fixed by the constructor from the two
  rates), not on the buffer, the rest of the store or the address. Two calls in
  sequence on frames with equal contents return frames with equal contents.
\<close>

theorem push_effect_free:
  assumes "frame < length store" and "frame' < length store"
    and "store ! frame' = store ! frame"
  shows "fst (snd (push this store frame)) = this
    \<and> take (length store) (snd (snd (push this store frame))) = store
    \<and> snd (snd (push this store frame)) ! frame = store ! frame
    \<and> (\<forall>that store2 frame2.
          ratio that = ratio this \<and> outputRate that = outputRate this
          \<and> store2 ! frame2 = store ! frame \<longrightarrow>
          returned_frames (push that store2 frame2) = returned_frames (push this store frame))
    \<and> returned_frames (push (fst (snd (push this store frame)))
                            (snd (snd (push this store frame))) frame')
        = returned_frames (push this store frame)"
proof (intro conjI allI impI)
  show "fst (snd (push this store frame)) = this" by (rule push_this_unchanged)
  show "take (length store) (snd (snd (push this store frame))) = store"
    by (rule push_store_extends)
  show "snd (snd (push this store frame)) ! frame = store ! frame"
    using assms(1) by (rule push_store_nth)
next
  fix that :: AudioResampler and store2 :: "AudioFrame list" and frame2 :: nat
  assume "ratio that = ratio this \<and> outputRate that = outputRate this
          \<and> store2 ! frame2 = store ! frame"
  then show "returned_frames (push that store2 frame2) = returned_frames (push this store frame)"
    by (simp only: returned_frames_push)
next
  have "snd (snd (push this store frame)) ! frame' = store ! frame"
    using assms(2,3) by (simp only: push_store_nth)
  then show "returned_frames (push (fst (snd (push this store frame)))
                            (snd (snd (push this store frame))) frame')
        = returned_frames (push this store frame)"
    by (simp only: push_this_unchanged returned_frames_push)
qed


theorem push_effect_free_witness:
  "(0::nat) < length [\<lparr>data = [1, 2, 3, 4], sampleRate = 48000, channels = 1,
                        samplesPerChannel = Some 4\<rparr>]
   \<and> [\<lparr>data = [1, 2, 3, 4], sampleRate = 48000, channels = 1, samplesPerChannel = Some 4\<rparr>] ! 0
       = [\<lparr>data = [1, 2, 3, 4], sampleRate = 48000, channels = 1, samplesPerChannel = Some 4\<rparr>] ! 0
   \<and> fst (snd (push (AudioResampler_new 48000 24000)
         [\<lparr>data = [1, 2, 3, 4], sampleRate = 48000, channels = 1, samplesPerChannel = Some 4\<rparr>] 0))
       = AudioResampler_new 48000 24000
   \<and> snd (snd (push (AudioResampler_new 48000 24000)
         [\<lparr>data = [1, 2, 3, 4], sampleRate = 48000, channels = 1, samplesPerChannel = Some 4\<rparr>] 0)) ! 0
       = \<lparr>data = [1, 2, 3, 4], sampleRate = 48000, channels = 1, samplesPerChannel = Some 4\<rparr>"
  using push_effect_free[of 0 "[\<lparr>data = [1, 2, 3, 4], sampleRate = 48000, channels = 1,
                        samplesPerChannel = Some 4\<rparr>]" 0 "AudioResampler_new 48000 24000"]
  by simp


section \<open>Equal rates, and the ratio 2\<close>

text \<open>
  Claim C5. When the input rate equals the output rate, the frame that \<open>push\<close> returns
  carries exactly the samples of the argument frame, sample for sample and in length
  (for a frame of fewer than \<open>2 ^ 53\<close> samples, as every typed array is).
\<close>

theorem push_identity_at_equal_rates:
  assumes "rate \<noteq> 0"
    and "length (data (store ! frame)) < 2 ^ 53"
  shows "map_option (map data) (returned_frames (push (AudioResampler_new rate rate) store frame))
         = Some [data (store ! frame)]"
proof -
  let ?xs = "data (store ! frame)"
  have "map (push_sample ?xs 1) [0..<length ?xs] = map (\<lambda>i. ?xs ! i) [0..<length ?xs]"
  proof (rule map_cong[OF refl])
    fix i assume "i \<in> set [0..<length ?xs]"
    then have "i * 1 < length ?xs" by simp
    then show "push_sample ?xs 1 i = ?xs ! i"
      using push_sample_integer_ratio[of i 1 ?xs] assms(2) by simp
  qed
  then have "map (push_sample ?xs 1) [0..<length ?xs] = ?xs" by (simp add: map_nth)
  then show ?thesis
    using assms
    by (simp add: returned_frames_push ratio_equal_rates count_at_ratio_1 outputRate_new)
qed

theorem push_identity_at_equal_rates_witness:
  "(24000::rat) \<noteq> 0
   \<and> length (data ([\<lparr>data = [5, - 7, 9], sampleRate = 48000, channels = 1,
                       samplesPerChannel = Some 3\<rparr>] ! 0)) < 2 ^ 53
   \<and> map_option (map data) (returned_frames (push (AudioResampler_new 24000 24000)
         [\<lparr>data = [5, - 7, 9], sampleRate = 48000, channels = 1, samplesPerChannel = Some 3\<rparr>] 0))
       = Some [[5, - 7, 9]]"
  using push_identity_at_equal_rates[of 24000 "[\<lparr>data = [5, - 7, 9], sampleRate = 48000, channels = 1,
                       samplesPerChannel = Some 3\<rparr>]" 0]
  by simp


text \<open>
  Claim C8. On a frame that it resamples (one at 48000 Hz, or at any rate but 24000),
  the resampler configured with the rates 48000 and 24000 returns exactly the samples
  that the every-second-sample loop of \<open>forwardAudio\<close> computes from the same data,
  which are the \<open>floor (n / 2)\<close> samples \<open>input[2 * i]\<close>: at the ratio 2 every
  interpolation fraction is 0.
\<close>

theorem decimation_equals_push:
  assumes "sampleRate (store ! frame) \<noteq> 24000"
    and "length (data (store ! frame)) < 2 ^ 53"
  shows "map_option (map data) (returned_frames (push (AudioResampler_new 48000 24000) store frame))
         = Some [forwardAudio_downsample (data (store ! frame))]
    \<and> forwardAudio_downsample (data (store ! frame))
         = map (\<lambda>i. data (store ! frame) ! (i * 2)) [0..<length (data (store ! frame)) div 2]"
proof -
  let ?xs = "data (store ! frame)"
  have "map (push_sample ?xs 2) [0..<length ?xs div 2] = map (\<lambda>i. ?xs ! (i * 2)) [0..<length ?xs div 2]"
  proof (rule map_cong[OF refl])
    fix i assume "i \<in> set [0..<length ?xs div 2]"
    then have "i * 2 < length ?xs" by simp
    then show "push_sample ?xs 2 i = ?xs ! (i * 2)"
      using push_sample_integer_ratio[of i 2 ?xs] assms(2) by simp
  qed
  then show ?thesis
    using assms
    by (simp add: returned_frames_push ratio_48000_24000 count_at_ratio_2 forwardAudio_downsample_eq
        outputRate_new)
qed


theorem decimation_equals_push_witness:
  "sampleRate ([\<lparr>data = [1, 2, 3, 4, 5], sampleRate = 48000, channels = 1,
                  samplesPerChannel = Some 5\<rparr>] ! 0) \<noteq> 24000
   \<and> length (data ([\<lparr>data = [1, 2, 3, 4, 5], sampleRate = 48000, channels = 1,
                  samplesPerChannel = Some 5\<rparr>] ! 0)) < 2 ^ 53
   \<and> map_option (map data) (returned_frames (push (AudioResampler_new 48000 24000)
         [\<lparr>data = [1, 2, 3, 4, 5], sampleRate = 48000, channels = 1, samplesPerChannel = Some 5\<rparr>] 0))
       = Some [forwardAudio_downsample [1, 2, 3, 4, 5]]
   \<and> forwardAudio_downsample [1, 2, 3, 4, 5] = [1, 3]"
proof -
  let ?s = "[\<lparr>data = [1, 2, 3, 4, 5], sampleRate = 48000, channels = 1,
                  samplesPerChannel = Some 5\<rparr>]"
  have a: "sampleRate (?s ! 0) \<noteq> 24000" by simp
  have b: "length (data (?s ! 0)) < 2 ^ 53" by simp
  have d: "data (?s ! 0) = [1, 2, 3, 4, 5]" by simp
  note w = decimation_equals_push[OF a b]
  have "forwardAudio_downsample [1, 2, 3, 4, 5] = [1, 3]"
    using w[THEN conjunct2] unfolding d by (simp add: upt_rec)
  then show ?thesis using a b w[THEN conjunct1] unfolding d by (intro conjI)
qed

section \<open>A first concrete run\<close>

lemma resample22To24_example:
  "resample22To24 [0, 100, 200, 300] = [Some 0, Some 92, Some 184, Some 276]"
  by code_simp

section \<open>Rounding against integers\<close>

lemma rne_mono:
  assumes "x \<le> y"
  shows "rne x \<le> rne y"
proof -
  have fx: "of_int \<lfloor>x\<rfloor> \<le> x" "x < of_int \<lfloor>x\<rfloor> + 1" by linarith+
  have fy: "of_int \<lfloor>y\<rfloor> \<le> y" "y < of_int \<lfloor>y\<rfloor> + 1" by linarith+
  have le: "\<lfloor>x\<rfloor> \<le> \<lfloor>y\<rfloor>" using assms by (rule floor_mono)
  have bx: "\<lfloor>x\<rfloor> \<le> rne x" "rne x \<le> \<lfloor>x\<rfloor> + 1" by (auto simp: rne_def Let_def)
  have by': "\<lfloor>y\<rfloor> \<le> rne y" "rne y \<le> \<lfloor>y\<rfloor> + 1" by (auto simp: rne_def Let_def)
  show ?thesis
  proof (cases "\<lfloor>x\<rfloor> = \<lfloor>y\<rfloor>")
    case True
    then show ?thesis using assms by (auto simp: rne_def Let_def)
  next
    case False
    then have "\<lfloor>x\<rfloor> + 1 \<le> \<lfloor>y\<rfloor>" using le by simp
    then show ?thesis using bx(2) by'(1) by linarith
  qed
qed

lemma fl_scaled:
  assumes "x \<noteq> 0" "\<bar>x\<bar> < 2 ^ 53"
  obtains m where "fl x = of_int (rne (x * 2 ^ m)) / 2 ^ m"
proof -
  have ax: "0 < \<bar>x\<bar>" using assms(1) by simp
  define e where "e = ilog2 \<bar>x\<bar>"
  have "pow2 e \<le> \<bar>x\<bar>" using ilog2_bounds[OF ax] by (simp add: e_def)
  then have "pow2 e < pow2 53" using assms(2) by (simp add: pow2_def)
  then have e52: "e \<le> 52" using pow2_mono[of 53 e] by (cases "e \<le> 52") auto
  define m where "m = nat (- max (e - 52) (- 1074))"
  have q: "max (e - 52) (- 1074) = - int m" using e52 by (simp add: m_def max_def)
  have "fl x = of_int (rne (x / pow2 (- int m))) * pow2 (- int m)"
    using assms(1) by (simp only: fl_def e_def[symmetric] q Let_def) simp
  then have "fl x = of_int (rne (x * 2 ^ m)) / 2 ^ m"
    by (simp add: pow2_neg_nat)
  then show ?thesis by (rule that)
qed

lemma fl_ge_int:
  assumes "\<bar>x\<bar> < 2 ^ 53" "of_int k \<le> x"
  shows "of_int k \<le> fl x"
proof (cases "x = 0")
  case True
  then show ?thesis using assms(2) by (simp add: fl_zero)
next
  case False
  then obtain m where m: "fl x = of_int (rne (x * 2 ^ m)) / 2 ^ m"
    using fl_scaled assms(1) by blast
  have "of_int (k * 2 ^ m) \<le> x * 2 ^ m" using assms(2) by simp
  then have "rne (of_int (k * 2 ^ m)) \<le> rne (x * 2 ^ m)" by (rule rne_mono)
  then have "k * 2 ^ m \<le> rne (x * 2 ^ m)" by (simp only: rne_int)
  then have "(of_int (k * 2 ^ m) :: rat) \<le> of_int (rne (x * 2 ^ m))" by (simp only: of_int_le_iff)
  then show ?thesis by (simp add: m pos_le_divide_eq)
qed

lemma fl_le_int:
  assumes "\<bar>x\<bar> < 2 ^ 53" "x \<le> of_int k"
  shows "fl x \<le> of_int k"
proof (cases "x = 0")
  case True
  then show ?thesis using assms(2) by (simp add: fl_zero)
next
  case False
  then obtain m where m: "fl x = of_int (rne (x * 2 ^ m)) / 2 ^ m"
    using fl_scaled assms(1) by blast
  have "x * 2 ^ m \<le> of_int (k * 2 ^ m)" using assms(2) by simp
  then have "rne (x * 2 ^ m) \<le> rne (of_int (k * 2 ^ m))" by (rule rne_mono)
  then have "rne (x * 2 ^ m) \<le> k * 2 ^ m" by (simp only: rne_int)
  then have "(of_int (rne (x * 2 ^ m)) :: rat) \<le> of_int (k * 2 ^ m)" by (simp only: of_int_le_iff)
  then show ?thesis by (simp add: m pos_divide_le_eq)
qed

lemma fl_nonpos:
  assumes "x \<le> 0"
  shows "fl x \<le> 0"
proof (cases "x = 0")
  case True
  then show ?thesis by (simp add: fl_zero)
next
  case False
  define q where "q = max (ilog2 \<bar>x\<bar> - 52) (- 1074)"
  have "x / pow2 q \<le> 0" using assms pow2_pos[of q] by (simp add: divide_le_0_iff)
  then have "rne (x / pow2 q) \<le> rne (of_int 0)" using rne_mono by fastforce
  then have "rne (x / pow2 q) \<le> 0" by (simp only: rne_int)
  then have "(of_int (rne (x / pow2 q)) :: rat) * pow2 q \<le> 0"
    using pow2_pos[of q] by (simp add: mult_le_0_iff)
  then show ?thesis using False by (simp add: fl_def q_def Let_def)
qed

text \<open>A rounded value below \<open>2 ^ 48\<close> comes from an argument below \<open>2 ^ 49\<close>.\<close>

lemma fl_small_arg:
  assumes "fl x < 2 ^ 48" "0 \<le> x"
  shows "x < 2 ^ 49"
proof (rule ccontr)
  assume "\<not> x < 2 ^ 49"
  then have x: "2 ^ 49 \<le> x" by simp
  then have "\<bar>fl x - x\<bar> \<le> x / 4503599627370496" using fl_err[of x x] by simp
  then have "x - x / 4503599627370496 \<le> fl x" by linarith
  then show False using x assms(1) by simp
qed

section \<open>Output length and source positions of resample22To24\<close>

text \<open>
  The ratio of \<open>resample22To24\<close> is the double nearest to \<open>24000 / 22050\<close>, a little
  above it. A JavaScript array has fewer than \<open>2 ^ 32\<close> elements.
\<close>

lemma ratio_22_24: "ddiv 24000 22050 = 4901877145437275 / 4503599627370496"
  by code_simp

lemma fl_err_33:
  assumes "\<bar>x\<bar> \<le> 2 ^ 33"
  shows "\<bar>fl x - x\<bar> \<le> 1 / 2 ^ 19"
  using fl_err[of "2 ^ 33" x] assms by simp

lemma nat_div_bounds:
  fixes a b :: nat
  assumes "0 < b"
  shows "(of_nat (a div b) :: rat) \<le> of_nat a / of_nat b"
    and "(of_nat a :: rat) / of_nat b \<le> of_nat (a div b) + (of_nat b - 1) / of_nat b"
proof -
  have b: "(0::rat) < of_nat b" using assms by simp
  have eq: "(of_nat a :: rat) = of_nat b * of_nat (a div b) + of_nat (a mod b)"
    by (metis mult_div_mod_eq of_nat_add of_nat_mult)
  have "a mod b \<le> b - 1" using assms
    by (metis Suc_pred' less_Suc_eq_le mod_less_divisor)
  then have "(of_nat (a mod b) :: rat) \<le> of_nat (b - 1)" by (simp only: of_nat_le_iff)
  then have m: "(of_nat (a mod b) :: rat) \<le> of_nat b - 1" using assms by (simp add: of_nat_diff)
  show "(of_nat (a div b) :: rat) \<le> of_nat a / of_nat b"
    using b by (simp add: pos_le_divide_eq eq mult.commute)
  have "(of_nat a :: rat) / of_nat b = of_nat (a div b) + of_nat (a mod b) / of_nat b"
    using b by (simp add: eq add_divide_distrib)
  moreover have "(of_nat (a mod b) :: rat) / of_nat b \<le> (of_nat b - 1) / of_nat b"
    using m b by (simp only: divide_right_mono less_imp_le)
  ultimately show "(of_nat a :: rat) / of_nat b \<le> of_nat (a div b) + (of_nat b - 1) / of_nat b"
    by simp
qed

lemma outputLength_22_24:
  assumes "n < 2 ^ 32"
  shows "nat (Math_floor (dmul (of_nat n) (ddiv 24000 22050))) = n * 24000 div 22050"
proof -
  define m :: rat where "m = of_nat n"
  define x :: rat where "x = m * (4901877145437275 / 4503599627370496)"
  define K where "K = n * 24000 div 22050"
  define k :: rat where "k = of_nat K"
  have "(of_nat n :: rat) < of_nat (2 ^ 32)" using assms by (simp only: of_nat_less_iff)
  then have n: "m < 4294967296" "0 \<le> m" by (simp_all add: m_def)
  have "(of_nat K :: rat) \<le> of_nat (n * 24000) / of_nat 22050"
    "(of_nat (n * 24000) :: rat) / of_nat 22050 \<le> of_nat K + (of_nat 22050 - 1) / of_nat 22050"
    unfolding K_def by (rule nat_div_bounds, simp)+
  then have E: "k \<le> m * 24000 / 22050" "m * 24000 / 22050 \<le> k + 22049 / 22050"
    by (simp_all add: k_def m_def)
  have xb: "\<bar>x\<bar> \<le> 2 ^ 33" using n unfolding x_def by (simp add: abs_mult)
  have x53: "\<bar>x\<bar> < 2 ^ 53" using xb by simp
  have "k \<le> x" using E(1) n unfolding x_def by linarith
  then have "of_int (int K) \<le> x" by (simp add: k_def)
  then have "of_int (int K) \<le> fl x" using x53 by (rule fl_ge_int[rotated])
  then have lo: "k \<le> fl x" by (simp add: k_def)
  have "\<bar>fl x - x\<bar> \<le> 1 / 524288" using fl_err_33[OF xb] by simp
  then have "fl x < k + 1" using E(2) n unfolding x_def by linarith
  then have "\<lfloor>fl x\<rfloor> = int K" using lo by (simp add: floor_unique k_def)
  then show ?thesis by (simp add: dmul_def ratio_22_24 Math_floor_def x_def K_def m_def)
qed

lemma srcIndex_err:
  assumes "n < 2 ^ 32" "i < n * 24000 div 22050"
  shows "\<bar>ddiv (of_nat i) (ddiv 24000 22050) - of_nat i * (4503599627370496 / 4901877145437275)\<bar>
          \<le> 1 / 524288"
    and "(of_nat i :: rat) + 1 \<le> of_nat n * 24000 / 22050"
    and "(of_nat n :: rat) < 4294967296"
proof -
  define m :: rat where "m = of_nat n"
  define t :: rat where "t = of_nat i"
  have "(of_nat n :: rat) < of_nat (2 ^ 32)" using assms(1) by (simp only: of_nat_less_iff)
  then show n: "(of_nat n :: rat) < 4294967296" by simp
  have "i + 1 \<le> n * 24000 div 22050" using assms(2) by simp
  then have "(of_nat (i + 1) :: rat) \<le> of_nat (n * 24000 div 22050)" by (simp only: of_nat_le_iff)
  also have "\<dots> \<le> of_nat (n * 24000) / of_nat 22050" by (rule nat_div_bounds) simp
  finally show i: "(of_nat i :: rat) + 1 \<le> of_nat n * 24000 / 22050" by simp
  have t0: "0 \<le> t" by (simp add: t_def)
  have "\<bar>t * (4503599627370496 / 4901877145437275)\<bar> \<le> 2 ^ 33"
    using i n t0 unfolding t_def abs_mult by simp
  then have "\<bar>fl (t * (4503599627370496 / 4901877145437275)) - t * (4503599627370496 / 4901877145437275)\<bar>
      \<le> 1 / 2 ^ 19" by (rule fl_err_33)
  then show "\<bar>ddiv (of_nat i) (ddiv 24000 22050) - of_nat i * (4503599627370496 / 4901877145437275)\<bar>
          \<le> 1 / 524288"
    unfolding ratio_22_24 by (simp add: ddiv_def t_def)
qed

lemma srcIndex_range:
  assumes "n < 2 ^ 32" "i < n * 24000 div 22050"
  shows "0 \<le> ddiv (of_nat i) (ddiv 24000 22050)"
    and "ddiv (of_nat i) (ddiv 24000 22050) < of_nat n"
proof -
  show "0 \<le> ddiv (of_nat i) (ddiv 24000 22050)"
    unfolding ratio_22_24 unfolding ddiv_def by (rule fl_nonneg) simp
  have "(0::rat) \<le> of_nat i" by simp
  then show "ddiv (of_nat i) (ddiv 24000 22050) < of_nat n"
    using srcIndex_err[OF assms] by linarith
qed

lemma srcIndex_spacing:
  assumes "n < 2 ^ 32" "j < n * 24000 div 22050" "i < j"
  shows "ddiv (of_nat i) (ddiv 24000 22050) + 9 / 10 \<le> ddiv (of_nat j) (ddiv 24000 22050)"
proof -
  have i: "i < n * 24000 div 22050" using assms(2,3) by simp
  have "i + 1 \<le> j" using assms(3) by simp
  then have "(of_nat (i + 1) :: rat) \<le> of_nat j" by (simp only: of_nat_le_iff)
  then have "(of_nat i :: rat) + 1 \<le> of_nat j" by simp
  then show ?thesis
    using srcIndex_err(1)[OF assms(1) i] srcIndex_err(1)[OF assms(1,2)] by linarith
qed

lemma srcIndexFloor_range:
  assumes "n < 2 ^ 32" "i < n * 24000 div 22050"
  shows "0 \<le> Math_floor (ddiv (of_nat i) (ddiv 24000 22050))"
    and "Math_floor (ddiv (of_nat i) (ddiv 24000 22050)) < int n"
  using srcIndex_range[OF assms] by (simp_all add: Math_floor_def floor_less_iff)

section \<open>Source positions of AudioResampler.push\<close>

lemma index0_range:
  assumes cnt: "outputSampleCount_of n r = Inr N"
    and N: "N < 2 ^ 48" and i: "i < N"
  shows "0 \<le> Math_floor (dmul (of_nat i) r)"
    and "Math_floor (dmul (of_nat i) r) < int n"
proof -
  define m :: rat where "m = of_nat n"
  define t :: rat where "t = of_nat i"
  define x where "x = m / r"
  have r0: "r \<noteq> 0" using cnt i by (auto simp: outputSampleCount_of_def split: if_splits)
  have c: "N = nat \<lfloor>fl x\<rfloor>"
    using cnt r0 by (auto simp: outputSampleCount_of_def Let_def Math_floor_def ddiv_def x_def m_def
        split: if_splits)
  have "int i + 1 \<le> \<lfloor>fl x\<rfloor>" using i c by linarith
  then have "of_int (int i + 1) \<le> fl x" by (simp only: le_floor_iff)
  then have ti: "t + 1 \<le> fl x" by (simp add: t_def)
  have t0: "0 \<le> t" by (simp add: t_def)
  have xpos: "0 < x"
  proof (rule ccontr)
    assume "\<not> 0 < x"
    then have "fl x \<le> 0" using fl_nonpos[of x] by simp
    then show False using ti t0 by simp
  qed
  have m0: "0 \<le> m" by (simp add: m_def)
  have mpos: "0 < m" using xpos m0 r0 unfolding x_def by (cases "m = 0") simp_all
  have rpos: "0 < r" using xpos mpos unfolding x_def by (simp add: zero_less_divide_iff)
  have m1: "1 \<le> m" using mpos unfolding m_def by (cases n) simp_all
  have "int N < 2 ^ 48" using N by (simp only: of_nat_less_numeral_power_cancel_iff) 
  then have "\<lfloor>fl x\<rfloor> < 2 ^ 48" using c i by linarith
  then have "fl x < 2 ^ 48" by (simp add: floor_less_iff)
  then have x33: "x < 2 ^ 49" using xpos by (intro fl_small_arg) simp_all
  then have "\<bar>fl x - x\<bar> \<le> 2 ^ 49 / 2 ^ 52" using xpos by (intro fl_err) simp_all
  then have "\<bar>fl x - x\<bar> \<le> 1 / 8" by simp
  then have tx: "t \<le> x - 1 + 1 / 8" using ti by linarith
  have xr: "x * r = m" using r0 by (simp add: x_def)
  have "t * r \<le> (x - 1 + 1 / 8) * r" using tx rpos by (simp only: mult_right_mono less_imp_le)
  also have "\<dots> = m - r + r / 8" using xr by (simp add: algebra_simps)
  finally have y: "t * r \<le> m - r + r / 8" by simp
  have "m < 2 ^ 49 * r" using x33 rpos by (simp add: x_def pos_divide_less_eq)
  then have mr: "m / 4503599627370496 < r / 8" by simp
  have y0: "0 \<le> t * r" using t0 rpos by simp
  have "t * r \<le> m" using y rpos by linarith
  then have "\<bar>fl (t * r) - t * r\<bar> \<le> m / 2 ^ 52" using y0 m1 by (intro fl_err) simp_all
  then have "\<bar>fl (t * r) - t * r\<bar> \<le> m / 4503599627370496" by simp
  then have "fl (t * r) < m" using y mr rpos by linarith
  then show "Math_floor (dmul (of_nat i) r) < int n"
    by (simp add: Math_floor_def dmul_def floor_less_iff t_def m_def)
  have "0 \<le> fl (t * r)" using y0 by (rule fl_nonneg)
  then show "0 \<le> Math_floor (dmul (of_nat i) r)"
    by (simp add: Math_floor_def dmul_def t_def)
qed

section \<open>The outputs, index by index\<close>

lemma resample22To24_eq:
  "resample22To24 samples =
     map (resample_sample samples (ddiv 24000 22050))
       [0..<nat (Math_floor (dmul (of_nat (length samples)) (ddiv 24000 22050)))]"
  by (simp add: resample22To24_def resample_loop_eq Let_def)

lemma length_resample22To24:
  "length samples < 2 ^ 32 \<Longrightarrow> length (resample22To24 samples) = length samples * 24000 div 22050"
  by (simp add: resample22To24_eq outputLength_22_24)

lemma nth_resample22To24:
  "i < length (resample22To24 samples) \<Longrightarrow>
   resample22To24 samples ! i = resample_sample samples (ddiv 24000 22050) i"
  by (simp add: resample22To24_eq)

lemma read_in_range: "0 \<le> k \<Longrightarrow> k < int (length xs) \<Longrightarrow> read xs k = Some (xs ! nat k)"
  by (simp add: read_def)

lemma ceil_in_range:
  "0 \<le> k \<Longrightarrow> k < int n \<Longrightarrow> 0 \<le> min (k + 1) (int n - 1) \<and> min (k + 1) (int n - 1) < int n"
  by (simp add: min_def)

lemma resample_sample_in_range:
  assumes "0 \<le> Math_floor (ddiv (of_nat i) r)" "Math_floor (ddiv (of_nat i) r) < int (length samples)"
  shows "resample_sample samples r i =
    Some (Math_round
      (dadd (dmul (of_int (samples ! nat (Math_floor (ddiv (of_nat i) r))))
               (dsub 1 (dsub (ddiv (of_nat i) r) (of_int (Math_floor (ddiv (of_nat i) r))))))
            (dmul (of_int (samples ! nat (min (Math_floor (ddiv (of_nat i) r) + 1) (int (length samples) - 1))))
               (dsub (ddiv (of_nat i) r) (of_int (Math_floor (ddiv (of_nat i) r)))))))"
proof -
  have c: "0 \<le> min (Math_floor (ddiv (of_nat i) r) + 1) (int (length samples) - 1)"
    "min (Math_floor (ddiv (of_nat i) r) + 1) (int (length samples) - 1) < int (length samples)"
    using ceil_in_range[OF assms] by simp_all
  show ?thesis
    unfolding resample_sample_def Let_def read_in_range[OF assms] read_in_range[OF c]
    by (simp only: prod.case option.case)
qed

lemma push_sample_in_range:
  assumes "0 \<le> Math_floor (dmul (of_nat i) r)" "Math_floor (dmul (of_nat i) r) < int (length xs)"
  shows "push_sample xs r i =
    word_of_int (Math_round
      (dadd (dmul (of_int (sint (xs ! nat (Math_floor (dmul (of_nat i) r)))))
               (dsub 1 (dsub (dmul (of_nat i) r) (of_int (Math_floor (dmul (of_nat i) r))))))
            (dmul (of_int (sint (xs ! nat (min (Math_floor (dmul (of_nat i) r) + 1) (int (length xs) - 1)))))
               (dsub (dmul (of_nat i) r) (of_int (Math_floor (dmul (of_nat i) r)))))))"
proof -
  have c: "0 \<le> min (Math_floor (dmul (of_nat i) r) + 1) (int (length xs) - 1)"
    "min (Math_floor (dmul (of_nat i) r) + 1) (int (length xs) - 1) < int (length xs)"
    using ceil_in_range[OF assms] by simp_all
  show ?thesis
    unfolding push_sample_def Let_def read_in_range[OF assms] read_in_range[OF c]
    by (simp only: prod.case option.case)
qed

lemma resample22To24_empty: "resample22To24 [] = []"
proof -
  have "length (resample22To24 []) = 0" using length_resample22To24[of "[]"] by simp
  then show ?thesis by simp
qed

lemma count_of_empty: "outputSampleCount_of 0 r = Inr 0"
  by (simp add: outputSampleCount_of_def ddiv_def fl_zero Math_floor_def)

lemma count_of_nonzero_ratio:
  "r \<noteq> 0 \<Longrightarrow> outputSampleCount_of n r = Inr N \<Longrightarrow> N = nat \<lfloor>fl (of_nat n / r)\<rfloor>"
  by (auto simp: outputSampleCount_of_def Let_def Math_floor_def ddiv_def split: if_splits)

lemma count_floor:
  "outputSampleCount_of n r = Inr N \<Longrightarrow> Math_floor (ddiv (of_nat n) r) = int N"
  by (auto simp: outputSampleCount_of_def Let_def ddiv_def fl_zero Math_floor_def split: if_splits)

section \<open>Reads stay inside the input\<close>

text \<open>
  Claim C4. Every index that a resampler reads lies inside the input: in
  \<open>resample22To24\<close>, for an input array (fewer than \<open>2 ^ 32\<close> elements), both
  \<open>srcIndexFloor\<close> and the clamped \<open>srcIndexCeil\<close> are between 0 and the last index at
  every iteration, so no read gives \<open>undefined\<close> and no output is \<open>NaN\<close>; in the
  interpolation loop of \<open>AudioResampler.push\<close>, for any ratio, the same holds of
  \<open>index0\<close> and \<open>index1\<close> whenever the output has fewer than \<open>2 ^ 48\<close> samples.
\<close>

theorem reads_within_input:
  "(length samples < 2 ^ 32 \<longrightarrow>
      (\<forall>i < length (resample22To24 samples).
         let srcIndexFloor = Math_floor (ddiv (of_nat i) (ddiv 24000 22050));
             srcIndexCeil = min (srcIndexFloor + 1) (int (length samples) - 1)
         in 0 \<le> srcIndexFloor \<and> srcIndexFloor \<le> int (length samples) - 1
          \<and> 0 \<le> srcIndexCeil \<and> srcIndexCeil \<le> int (length samples) - 1
          \<and> read samples srcIndexFloor \<noteq> None \<and> read samples srcIndexCeil \<noteq> None
          \<and> resample22To24 samples ! i \<noteq> None))
   \<and> (outputSampleCount_of (length inputSamples) r = Inr outputSampleCount
        \<longrightarrow> outputSampleCount < 2 ^ 48 \<longrightarrow>
      (\<forall>i < outputSampleCount.
         let index0 = Math_floor (dmul (of_nat i) r);
             index1 = min (index0 + 1) (int (length inputSamples) - 1)
         in 0 \<le> index0 \<and> index0 \<le> int (length inputSamples) - 1
          \<and> 0 \<le> index1 \<and> index1 \<le> int (length inputSamples) - 1
          \<and> read inputSamples index0 \<noteq> None \<and> read inputSamples index1 \<noteq> None))"
proof (intro conjI impI allI)
  fix i
  assume n: "length samples < 2 ^ 32" and "i < length (resample22To24 samples)"
  then have i: "i < length samples * 24000 div 22050" by (simp add: length_resample22To24)
  note k = srcIndexFloor_range[OF n i]
  note c = ceil_in_range[OF k]
  show "let srcIndexFloor = Math_floor (ddiv (of_nat i) (ddiv 24000 22050));
             srcIndexCeil = min (srcIndexFloor + 1) (int (length samples) - 1)
         in 0 \<le> srcIndexFloor \<and> srcIndexFloor \<le> int (length samples) - 1
          \<and> 0 \<le> srcIndexCeil \<and> srcIndexCeil \<le> int (length samples) - 1
          \<and> read samples srcIndexFloor \<noteq> None \<and> read samples srcIndexCeil \<noteq> None
          \<and> resample22To24 samples ! i \<noteq> None"
    using k c \<open>i < length (resample22To24 samples)\<close>
    by (simp add: Let_def read_def nth_resample22To24 resample_sample_in_range[OF k])
next
  fix i
  assume "outputSampleCount_of (length inputSamples) r = Inr outputSampleCount"
    "outputSampleCount < 2 ^ 48" "i < outputSampleCount"
  note k = index0_range[OF this]
  note c = ceil_in_range[OF k]
  show "let index0 = Math_floor (dmul (of_nat i) r);
             index1 = min (index0 + 1) (int (length inputSamples) - 1)
         in 0 \<le> index0 \<and> index0 \<le> int (length inputSamples) - 1
          \<and> 0 \<le> index1 \<and> index1 \<le> int (length inputSamples) - 1
          \<and> read inputSamples index0 \<noteq> None \<and> read inputSamples index1 \<noteq> None"
    using k c by (simp add: Let_def read_def)
qed

theorem reads_within_input_witness:
  "length [0, 100, 200, 300 :: int] < 2 ^ 32
   \<and> (3::nat) < length (resample22To24 [0, 100, 200, 300])
   \<and> (let srcIndexFloor = Math_floor (ddiv (of_nat 3) (ddiv 24000 22050));
            srcIndexCeil = min (srcIndexFloor + 1) (int (length [0, 100, 200, 300 :: int]) - 1)
        in 0 \<le> srcIndexFloor \<and> srcIndexFloor \<le> int (length [0, 100, 200, 300 :: int]) - 1
         \<and> 0 \<le> srcIndexCeil \<and> srcIndexCeil \<le> int (length [0, 100, 200, 300 :: int]) - 1
         \<and> read [0, 100, 200, 300 :: int] srcIndexFloor \<noteq> None
         \<and> read [0, 100, 200, 300 :: int] srcIndexCeil \<noteq> None
         \<and> resample22To24 [0, 100, 200, 300] ! 3 \<noteq> None)
   \<and> outputSampleCount_of (length [1, 2, 3, 4 :: 16 word]) 2 = Inr 2
   \<and> (2::nat) < 2 ^ 48
   \<and> (1::nat) < 2
   \<and> (let index0 = Math_floor (dmul (of_nat 1) 2);
            index1 = min (index0 + 1) (int (length [1, 2, 3, 4 :: 16 word]) - 1)
        in 0 \<le> index0 \<and> index0 \<le> int (length [1, 2, 3, 4 :: 16 word]) - 1
         \<and> 0 \<le> index1 \<and> index1 \<le> int (length [1, 2, 3, 4 :: 16 word]) - 1
         \<and> read [1, 2, 3, 4 :: 16 word] index0 \<noteq> None
         \<and> read [1, 2, 3, 4 :: 16 word] index1 \<noteq> None)"
proof -
  have n: "length [0, 100, 200, 300 :: int] < 2 ^ 32" by simp
  have l: "(3::nat) < length (resample22To24 [0, 100, 200, 300])"
    by (simp add: resample22To24_example)
  have c: "outputSampleCount_of (length [1, 2, 3, 4 :: 16 word]) 2 = Inr 2"
    using count_at_ratio_2[of "length [1, 2, 3, 4 :: 16 word]"] by simp
  have b: "(2::nat) < 2 ^ 48" "(1::nat) < 2" by simp_all
  note w = reads_within_input[where samples = "[0, 100, 200, 300]" and inputSamples = "[1, 2, 3, 4]"
      and r = 2 and outputSampleCount = 2]
  show ?thesis
    using n l c b w[THEN conjunct1, rule_format, OF n l] w[THEN conjunct2, rule_format, OF c b]
    by (intro conjI)
qed

section \<open>The two branches of AudioResampler.push\<close>

text \<open>
  Claim C9. The no-op branch is decided by the frame's own \<open>sampleRate\<close>: when it
  equals the resampler's output rate, \<open>push\<close> returns the address of that very frame
  and changes nothing, so the returned frame is the argument frame with its data as it
  was, whatever the resampler's ratio and configured input rate. When it differs, and
  the output array is allocated (\<open>n\<close> samples, fewer than \<open>2 ^ 48\<close>), the returned
  frame carries the resampler's output rate and, at each index \<open>i\<close>, the rounded linear
  interpolation of the frame's data at the position \<open>i * ratio\<close>, with the ratio of the
  resampler, which the constructor set to \<open>inputRate / outputRate\<close> (for a non-zero
  output rate). The frame's \<open>sampleRate\<close> does not occur in it: two frames with the
  same data and channels that both differ from the output rate give the same result,
  whatever their sample rates.
\<close>

theorem push_noop_by_frame_sampleRate:
  "(sampleRate (store ! frame) = outputRate this \<longrightarrow>
      push this store frame = (Inr [frame], this, store)
      \<and> returned_frames (push this store frame) = Some [store ! frame])
   \<and> (sampleRate (store ! frame) \<noteq> outputRate this \<longrightarrow>
        outputSampleCount_of (length (data (store ! frame))) (ratio this) = Inr n \<longrightarrow>
        n < 2 ^ 48 \<longrightarrow>
        returned_frames (push this store frame) =
          Some [\<lparr>data = map (\<lambda>i.
                    let inputIndex = dmul (of_nat i) (ratio this);
                        index0 = Math_floor inputIndex;
                        index1 = min (index0 + 1) (int (length (data (store ! frame))) - 1);
                        fraction = dsub inputIndex (of_int index0)
                    in word_of_int
                         (Math_round (dadd (dmul (of_int (sint (data (store ! frame) ! nat index0)))
                                                 (dsub 1 fraction))
                                           (dmul (of_int (sint (data (store ! frame) ! nat index1)))
                                                 fraction)))) [0..<n],
                  sampleRate = outputRate this,
                  channels = channels (store ! frame),
                  samplesPerChannel = (if channels (store ! frame) = 0 \<or> ratio this = 0 then None
                     else Some (ddiv (of_nat n) (channels (store ! frame))))\<rparr>])
   \<and> (sampleRate (store ! frame) \<noteq> outputRate this \<longrightarrow>
        sampleRate (store' ! frame') \<noteq> outputRate this \<longrightarrow>
        data (store' ! frame') = data (store ! frame) \<longrightarrow>
        channels (store' ! frame') = channels (store ! frame) \<longrightarrow>
        returned_frames (push this store' frame') = returned_frames (push this store frame))
   \<and> (outRate \<noteq> 0 \<longrightarrow>
        ratio (AudioResampler_new inRate outRate) = ddiv inRate outRate
        \<and> outputRate (AudioResampler_new inRate outRate) = outRate)"
proof (intro conjI impI)
  assume "sampleRate (store ! frame) = outputRate this"
  then show "push this store frame = (Inr [frame], this, store)" by (rule push_noop)
next
  assume "sampleRate (store ! frame) = outputRate this"
  then show "returned_frames (push this store frame) = Some [store ! frame]"
    by (simp add: returned_frames_push)
next
  let ?xs = "data (store ! frame)"
  assume a: "sampleRate (store ! frame) \<noteq> outputRate this"
    and cnt: "outputSampleCount_of (length ?xs) (ratio this) = Inr n"
    and n: "n < 2 ^ 48"
  have "map (push_sample ?xs (ratio this)) [0..<n] =
        map (\<lambda>i.
                    let inputIndex = dmul (of_nat i) (ratio this);
                        index0 = Math_floor inputIndex;
                        index1 = min (index0 + 1) (int (length ?xs) - 1);
                        fraction = dsub inputIndex (of_int index0)
                    in word_of_int
                         (Math_round (dadd (dmul (of_int (sint (?xs ! nat index0))) (dsub 1 fraction))
                                           (dmul (of_int (sint (?xs ! nat index1))) fraction)))) [0..<n]"
  proof (rule map_cong[OF refl])
    fix i assume "i \<in> set [0..<n]"
    then have i: "i < n" by simp
    note k = index0_range[OF cnt n i]
    show "push_sample ?xs (ratio this) i =
          (let inputIndex = dmul (of_nat i) (ratio this);
                        index0 = Math_floor inputIndex;
                        index1 = min (index0 + 1) (int (length ?xs) - 1);
                        fraction = dsub inputIndex (of_int index0)
                    in word_of_int
                         (Math_round (dadd (dmul (of_int (sint (?xs ! nat index0))) (dsub 1 fraction))
                                           (dmul (of_int (sint (?xs ! nat index1))) fraction))))"
      unfolding Let_def by (simp only: push_sample_in_range[OF k])
  qed
  then show "returned_frames (push this store frame) =
          Some [\<lparr>data = map (\<lambda>i.
                    let inputIndex = dmul (of_nat i) (ratio this);
                        index0 = Math_floor inputIndex;
                        index1 = min (index0 + 1) (int (length (data (store ! frame))) - 1);
                        fraction = dsub inputIndex (of_int index0)
                    in word_of_int
                         (Math_round (dadd (dmul (of_int (sint (data (store ! frame) ! nat index0)))
                                                 (dsub 1 fraction))
                                           (dmul (of_int (sint (data (store ! frame) ! nat index1)))
                                                 fraction)))) [0..<n],
                  sampleRate = outputRate this,
                  channels = channels (store ! frame),
                  samplesPerChannel = (if channels (store ! frame) = 0 \<or> ratio this = 0 then None
                     else Some (ddiv (of_nat n) (channels (store ! frame))))\<rparr>]"
    using a cnt by (simp only: returned_frames_push if_False sum.case)
next
  assume "sampleRate (store ! frame) \<noteq> outputRate this"
    "sampleRate (store' ! frame') \<noteq> outputRate this"
    "data (store' ! frame') = data (store ! frame)"
    "channels (store' ! frame') = channels (store ! frame)"
  then show "returned_frames (push this store' frame') = returned_frames (push this store frame)"
    by (simp only: returned_frames_push if_False)
next
  show "ratio (AudioResampler_new inRate outRate) = ddiv inRate outRate" by (rule ratio_new)
  show "outputRate (AudioResampler_new inRate outRate) = outRate" by (rule outputRate_new)
qed

theorem push_noop_by_frame_sampleRate_witness:
  "sampleRate ([\<lparr>data = [1, 2, 3, 4], sampleRate = 24000, channels = 1,
                  samplesPerChannel = Some 4\<rparr>] ! 0) = outputRate (AudioResampler_new 48000 24000)
   \<and> push (AudioResampler_new 48000 24000)
        [\<lparr>data = [1, 2, 3, 4], sampleRate = 24000, channels = 1, samplesPerChannel = Some 4\<rparr>] 0
      = (Inr [0], AudioResampler_new 48000 24000,
         [\<lparr>data = [1, 2, 3, 4], sampleRate = 24000, channels = 1, samplesPerChannel = Some 4\<rparr>])
   \<and> returned_frames (push (AudioResampler_new 48000 24000)
        [\<lparr>data = [1, 2, 3, 4], sampleRate = 24000, channels = 1, samplesPerChannel = Some 4\<rparr>] 0)
      = Some [\<lparr>data = [1, 2, 3, 4], sampleRate = 24000, channels = 1, samplesPerChannel = Some 4\<rparr>]
   \<and> sampleRate ([\<lparr>data = [1, 2, 3, 4], sampleRate = 44100, channels = 1,
                  samplesPerChannel = Some 4\<rparr>] ! 0) \<noteq> outputRate (AudioResampler_new 48000 24000)
   \<and> outputSampleCount_of (length (data ([\<lparr>data = [1, 2, 3, 4], sampleRate = 44100, channels = 1,
                  samplesPerChannel = Some 4\<rparr>] ! 0))) (ratio (AudioResampler_new 48000 24000)) = Inr 2
   \<and> (2::nat) < 2 ^ 48
   \<and> returned_frames (push (AudioResampler_new 48000 24000)
        [\<lparr>data = [1, 2, 3, 4], sampleRate = 44100, channels = 1, samplesPerChannel = Some 4\<rparr>] 0)
      = Some [\<lparr>data = [1, 3], sampleRate = 24000, channels = 1, samplesPerChannel = Some 2\<rparr>]
   \<and> sampleRate ([\<lparr>data = [1, 2, 3, 4], sampleRate = 48000, channels = 1,
                  samplesPerChannel = Some 4\<rparr>] ! 0) \<noteq> outputRate (AudioResampler_new 48000 24000)
   \<and> returned_frames (push (AudioResampler_new 48000 24000)
        [\<lparr>data = [1, 2, 3, 4], sampleRate = 48000, channels = 1, samplesPerChannel = Some 4\<rparr>] 0)
      = returned_frames (push (AudioResampler_new 48000 24000)
        [\<lparr>data = [1, 2, 3, 4], sampleRate = 44100, channels = 1, samplesPerChannel = Some 4\<rparr>] 0)
   \<and> (24000::rat) \<noteq> 0
   \<and> ratio (AudioResampler_new 48000 24000) = ddiv 48000 24000
   \<and> outputRate (AudioResampler_new 48000 24000) = 24000"
proof -
  let ?rs = "AudioResampler_new 48000 24000"
  let ?s24 = "[\<lparr>data = [1, 2, 3, 4], sampleRate = 24000, channels = 1, samplesPerChannel = Some 4\<rparr>]"
  let ?s44 = "[\<lparr>data = [1, 2, 3, 4], sampleRate = 44100, channels = 1, samplesPerChannel = Some 4\<rparr>]"
  let ?s48 = "[\<lparr>data = [1, 2, 3, 4], sampleRate = 48000, channels = 1, samplesPerChannel = Some 4\<rparr>]"
  have a: "sampleRate (?s24 ! 0) = outputRate ?rs" by (simp add: outputRate_new)
  have b: "sampleRate (?s44 ! 0) \<noteq> outputRate ?rs" by (simp add: outputRate_new)
  have c: "outputSampleCount_of (length (data (?s44 ! 0))) (ratio ?rs) = Inr 2"
    by (simp add: ratio_48000_24000 count_at_ratio_2)
  have k: "(2::nat) < 2 ^ 48" by simp
  have d: "sampleRate (?s48 ! 0) \<noteq> outputRate ?rs" by (simp add: outputRate_new)
  have e: "data (?s48 ! 0) = data (?s44 ! 0)" "channels (?s48 ! 0) = channels (?s44 ! 0)"
    by simp_all
  have z: "(24000::rat) \<noteq> 0" by simp
  have f: "fl 2 = 2" "fl 3 = 3" using fl_int[of 2] fl_int[of 3] by simp_all
  have g: "Math_round 1 = 1" "Math_round 3 = 3"
    using Math_round_int[of 1] Math_round_int[of 3] by simp_all
  note w1 = push_noop_by_frame_sampleRate[where store = ?s24 and frame = 0 and this = ?rs]
  note w2 = push_noop_by_frame_sampleRate[where store = ?s44 and frame = 0 and this = ?rs
      and n = 2 and store' = ?s48 and frame' = 0 and inRate = 48000 and outRate = 24000]
  have n1: "returned_frames (push ?rs ?s24 0) = Some [\<lparr>data = [1, 2, 3, 4], sampleRate = 24000,
      channels = 1, samplesPerChannel = Some 4\<rparr>]"
    using w1[THEN conjunct1, rule_format, OF a, THEN conjunct2] by simp
  have r: "returned_frames (push ?rs ?s44 0)
      = Some [\<lparr>data = [1, 3], sampleRate = 24000, channels = 1, samplesPerChannel = Some 2\<rparr>]"
    using w2[THEN conjunct2, THEN conjunct1, rule_format, OF b c k]
    by (simp add: ratio_48000_24000 outputRate_new upt_rec Let_def dmul_def dsub_def dadd_def ddiv_def
        Math_floor_def fl_zero fl_one f g)
  show ?thesis
    using a b c k d z n1 r w1[THEN conjunct1, rule_format, OF a, THEN conjunct1]
      w2[THEN conjunct2, THEN conjunct2, THEN conjunct1, rule_format, OF b d e]
      w2[THEN conjunct2, THEN conjunct2, THEN conjunct2, rule_format, OF z, THEN conjunct1]
      w2[THEN conjunct2, THEN conjunct2, THEN conjunct2, rule_format, OF z, THEN conjunct2]
    by (intro conjI)
qed


section \<open>Output lengths\<close>

text \<open>The relative error of one rounding, away from the subnormal range.\<close>

lemma fl_rel_err:
  assumes "pow2 (- 1022) \<le> \<bar>x\<bar>"
  shows "\<bar>fl x - x\<bar> \<le> \<bar>x\<bar> / 2 ^ 53"
proof -
  have ax: "0 < \<bar>x\<bar>" using assms pow2_pos[of "- 1022"] by linarith
  define e where "e = ilog2 \<bar>x\<bar>"
  have b: "pow2 e \<le> \<bar>x\<bar>" "\<bar>x\<bar> < pow2 (e + 1)"
    using ilog2_bounds[OF ax] by (simp_all add: e_def)
  have "pow2 (- 1022) < pow2 (e + 1)" using assms b(2) by simp
  then have e: "- 1022 \<le> e" using pow2_mono[of "e + 1" "- 1022"] by (cases "- 1022 \<le> e") auto
  then have "max (e - 52) (- 1074) = e + (- 53) + 1" by (simp add: max_def)
  then have "pow2 (max (e - 52) (- 1074)) = pow2 e * pow2 (- 53) * pow2 1"
    by (simp only: pow2_add)
  also have "\<dots> = pow2 e * (2 / 2 ^ 53)" by (simp add: pow2_def)
  finally have "pow2 (max (e - 52) (- 1074)) / 2 = pow2 e / 2 ^ 53" by simp
  also have "\<dots> \<le> \<bar>x\<bar> / 2 ^ 53" using b(1) by (simp add: divide_right_mono)
  finally show ?thesis using fl_abs_err[of x] by (simp add: e_def)
qed

text \<open>
  The output count of \<open>AudioResampler.push\<close> against the specified length: two
  roundings, of the ratio and of the quotient, can only lose one sample.
\<close>

lemma fl_rel_bounds:
  assumes "pow2 (- 1022) \<le> x"
  shows "x - x * (1 / 2 ^ 53) \<le> fl x" and "fl x \<le> x + x * (1 / 2 ^ 53)"
proof -
  have xpos: "0 < x" using assms pow2_pos[of "- 1022"] by linarith
  then have "\<bar>fl x - x\<bar> \<le> \<bar>x\<bar> / 2 ^ 53" using assms by (intro fl_rel_err) simp
  then have e: "\<bar>fl x - x\<bar> \<le> x / 9007199254740992" using xpos by simp
  have "x - x / 9007199254740992 \<le> fl x" using e by linarith
  then show "x - x * (1 / 2 ^ 53) \<le> fl x" by simp
  have "fl x \<le> x + x / 9007199254740992" using e by linarith
  then show "fl x \<le> x + x * (1 / 2 ^ 53)" by simp
qed

lemma push_count_near_spec:
  assumes a: "0 < a" "a < 2 ^ 19" and b: "0 < b" "b < 2 ^ 19" and n: "n < 2 ^ 32"
  shows "\<exists>N. outputSampleCount_of n (ddiv (of_nat a) (of_nat b)) = Inr N
             \<and> (N = n * b div a \<or> N + 1 = n * b div a)"
proof (cases "n = 0")
  case True
  then show ?thesis by (simp add: count_of_empty)
next
  case False
  define A :: rat where "A = of_nat a"
  define B :: rat where "B = of_nat b"
  define m :: rat where "m = of_nat n"
  define q where "q = A / B"
  define r where "r = fl q"
  define x where "x = m / r"
  define E where "E = m * B / A"
  define K where "K = n * b div a"
  define \<epsilon> :: rat where "\<epsilon> = 1 / 2 ^ 53"
  have eps: "0 < \<epsilon>" "\<epsilon> \<le> 1 / 2" by (simp_all add: \<epsilon>_def)
  have "(of_nat a :: rat) < of_nat (2 ^ 19)" "(of_nat b :: rat) < of_nat (2 ^ 19)"
    "(of_nat n :: rat) < of_nat (2 ^ 32)"
    using a(2) b(2) n by (simp_all only: of_nat_less_iff)
  then have up: "A < 524288" "B < 524288" "m < 4294967296" by (simp_all add: A_def B_def m_def)
  have "1 \<le> a" "1 \<le> b" "1 \<le> n" using a(1) b(1) False by simp_all
  then have "(of_nat 1 :: rat) \<le> of_nat a" "(of_nat 1 :: rat) \<le> of_nat b"
    "(of_nat 1 :: rat) \<le> of_nat n"
    by (simp_all only: of_nat_le_iff)
  then have lo: "1 \<le> A" "1 \<le> B" "1 \<le> m" by (simp_all add: A_def B_def m_def)
  have qpos: "0 < q" using lo by (simp add: q_def)
  have "1 / 524288 \<le> A / B" using lo up by (simp add: pos_le_divide_eq)
  then have qlo: "1 / 524288 \<le> q" by (simp add: q_def)
  have "pow2 (- 1022) \<le> pow2 (- 19)" by (rule pow2_mono) simp
  also have "pow2 (- 19) = 1 / 524288" by (simp add: pow2_def)
  finally have p: "pow2 (- 1022) \<le> 1 / 524288" .
  have "pow2 (- 1022) \<le> q" using p qlo by linarith
  then have rq: "q - q * \<epsilon> \<le> r" "r \<le> q + q * \<epsilon>"
    unfolding r_def \<epsilon>_def by (rule fl_rel_bounds)+
  have "q * \<epsilon> \<le> q * (1 / 2)" using eps qpos by (intro mult_left_mono) simp_all
  then have rlo: "q / 2 \<le> r" using rq(1) by simp
  then have rpos: "0 < r" using qpos by linarith
  have xpos: "0 < x" using lo rpos by (simp add: x_def)
  have xr: "x * r = m" using rpos by (simp add: x_def)
  have Eq: "E * q = m" using lo by (simp add: E_def q_def)
  have Epos: "0 < E" using lo by (simp add: E_def)
  \<comment> \<open>\<open>x\<close> and \<open>E\<close> differ by a relative \<open>\<epsilon>\<close>\<close>
  have "x * (q - q * \<epsilon>) \<le> x * r" using rq(1) xpos by (intro mult_left_mono) simp_all
  then have "(x - x * \<epsilon>) * q \<le> E * q" using xr Eq by (simp add: algebra_simps)
  then have x1: "x - x * \<epsilon> \<le> E" using qpos by (simp only: mult_le_cancel_right_pos)
  have "x * r \<le> x * (q + q * \<epsilon>)" using rq(2) xpos by (intro mult_left_mono) simp_all
  then have "E * q \<le> (x + x * \<epsilon>) * q" using xr Eq by (simp add: algebra_simps)
  then have x2: "E \<le> x + x * \<epsilon>" using qpos by (simp only: mult_le_cancel_right_pos)
  have xh: "x * \<epsilon> \<le> x * (1 / 2)" using eps xpos by (intro mult_left_mono) simp_all
  then have x2E: "x \<le> 2 * E" using x1 by linarith
  have xe: "x * \<epsilon> \<le> 2 * E * \<epsilon>" using x2E eps by (intro mult_right_mono) simp_all
  \<comment> \<open>the size of \<open>E\<close>\<close>
  have EA: "E * A = m * B" using lo by (simp add: E_def)
  have mB: "m * B < 4294967296 * 524288" using up lo by (intro mult_strict_mono) simp_all
  have "E * 1 \<le> E * A" using lo Epos by (intro mult_left_mono) simp_all
  then have Eup: "E < 2251799813685248" using EA mB by simp
  have "1 / 524288 \<le> m * B / A" using lo up by (simp add: pos_le_divide_eq) (use mult_mono[of 1 m 1 B] in simp)
  then have Elo: "1 / 524288 \<le> E" by (simp add: E_def)
  have xlo: "1 / 1048576 \<le> x" using x2 xh Elo by linarith
  have "pow2 (- 1022) \<le> pow2 (- 20)" by (rule pow2_mono) simp
  also have "pow2 (- 20) = 1 / 1048576" by (simp add: pow2_def)
  finally have "pow2 (- 1022) \<le> x" using xlo by linarith
  then have fx: "x - x * \<epsilon> \<le> fl x" "fl x \<le> x + x * \<epsilon>"
    unfolding \<epsilon>_def by (rule fl_rel_bounds)+
  \<comment> \<open>the gap of \<open>E\<close> to the next integer\<close>
  have ap: "0 < a" by (rule a)
  have "(of_nat K :: rat) \<le> of_nat (n * b) / of_nat a"
    "(of_nat (n * b) :: rat) / of_nat a \<le> of_nat K + (of_nat a - 1) / of_nat a"
    unfolding K_def by (rule nat_div_bounds[OF ap])+
  then have KE: "of_nat K \<le> E" "E \<le> of_nat K + (A - 1) / A"
    by (simp_all add: E_def A_def B_def m_def)
  have "4 * E * \<epsilon> * A = 4 * (m * B) * \<epsilon>" using EA by (simp add: algebra_simps)
  also have "\<dots> < 4 * (4294967296 * 524288) * \<epsilon>"
    using mB eps(1) by (intro mult_strict_right_mono mult_strict_left_mono) simp_all
  also have "\<dots> = 1" by (simp add: \<epsilon>_def)
  finally have "4 * E * \<epsilon> < 1 / A" using lo by (simp add: pos_less_divide_eq)
  moreover have "(A - 1) / A + 1 / A = 1" using lo by (simp add: field_simps)
  ultimately have gap: "E + 4 * E * \<epsilon> < of_nat K + 1" using KE(2) by linarith
  have hi: "fl x < of_nat K + 1" using fx(2) x1 xe gap by linarith
  have "4 * E * \<epsilon> < 1"
  proof -
    have "4 * E * \<epsilon> < 4 * 2251799813685248 * \<epsilon>"
      using Eup eps(1) by (intro mult_strict_right_mono mult_strict_left_mono) simp_all
    then show ?thesis by (simp add: \<epsilon>_def)
  qed
  then have lw: "of_nat K - 1 < fl x" using fx(1) x2 xe KE(1) by linarith
  have nn: "0 \<le> fl x" using xpos by (intro fl_nonneg) simp
  define c where "c = \<lfloor>fl x\<rfloor>"
  have c0: "0 \<le> c" using nn by (simp add: c_def)
  have "fl x < of_int (int K + 1)" using hi by simp
  then have "c < int K + 1" unfolding c_def by (simp only: floor_less_iff)
  moreover have "of_int (int K - 1) \<le> fl x" using lw by simp
  then have "int K - 1 \<le> c" unfolding c_def by (simp only: le_floor_iff)
  ultimately have cK: "c = int K \<or> c + 1 = int K" by linarith
  have "(of_int (int K) :: rat) < 2 ^ 53" using KE(1) Eup by simp
  then have "int K < 2 ^ 53" by (simp only: of_int_less_numeral_power_cancel_iff)
  then have c53: "c < 2 ^ 53" using cK by linarith
  have rne0: "r \<noteq> 0" using rpos by simp
  have "outputSampleCount_of n (ddiv (of_nat a) (of_nat b)) = Inr (nat c)"
    using c0 c53 rne0
    by (simp add: outputSampleCount_of_def Let_def Math_floor_def ddiv_def c_def x_def r_def q_def
        m_def A_def B_def)
  moreover have "nat c = K \<or> nat c + 1 = K" using cK c0 by linarith
  ultimately show ?thesis unfolding K_def by blast
qed

text \<open>
  Claim C2, as amended. \<open>resample22To24\<close> returns exactly
  \<open>floor (n * 24000 / 22050)\<close> samples for an input array of \<open>n\<close> samples (input and
  output being arrays, of fewer than \<open>2 ^ 32\<close> elements). \<open>AudioResampler.push\<close>, for
  positive integer rates below \<open>2 ^ 19\<close> and a frame of fewer than \<open>2 ^ 32\<close> samples,
  computes an \<open>outputSampleCount\<close> of \<open>floor (n * outputRate / inputRate)\<close> or one less,
  and on a frame whose \<open>sampleRate\<close> differs from the output rate, whenever it returns
  (it throws when the output array cannot be allocated), returns one frame of
  \<open>floor (n * outputRate / inputRate)\<close> samples or one sample fewer; in general, with a
  non-zero ratio, what it returns is one frame of \<open>floor (n / ratio)\<close> samples, the
  quotient being the double quotient of \<open>n\<close> by the resampler's double ratio. On a frame
  whose \<open>sampleRate\<close> equals the output rate it returns the \<open>n\<close> samples of the frame.
  An empty input yields an empty output in both.
\<close>

theorem output_lengths:
  "(length samples < 2 ^ 32 \<longrightarrow> length (resample22To24 samples) < 2 ^ 32 \<longrightarrow>
      length (resample22To24 samples) = spec_length (length samples) 22050 24000)
   \<and> (0 < input_rate \<longrightarrow> input_rate < 2 ^ 19 \<longrightarrow> 0 < output_rate \<longrightarrow> output_rate < 2 ^ 19 \<longrightarrow>
        n < 2 ^ 32 \<longrightarrow>
        (let outputSampleCount =
               Math_floor (ddiv (of_nat n)
                 (ratio (AudioResampler_new (of_nat input_rate) (of_nat output_rate))))
         in outputSampleCount = int (spec_length n input_rate output_rate)
            \<or> outputSampleCount + 1 = int (spec_length n input_rate output_rate)))
   \<and> (0 < input_rate \<longrightarrow> input_rate < 2 ^ 19 \<longrightarrow> 0 < output_rate \<longrightarrow> output_rate < 2 ^ 19 \<longrightarrow>
        length (data (store ! frame)) < 2 ^ 32 \<longrightarrow>
        sampleRate (store ! frame) \<noteq> of_nat output_rate \<longrightarrow>
        returned_frames (push (AudioResampler_new (of_nat input_rate) (of_nat output_rate))
                store frame) = Some frames \<longrightarrow>
      (\<exists>fr. frames = [fr]
         \<and> (length (data fr) = spec_length (length (data (store ! frame))) input_rate output_rate
              \<or> length (data fr) + 1
                  = spec_length (length (data (store ! frame))) input_rate output_rate)))
   \<and> (sampleRate (store ! frame) \<noteq> outputRate this \<longrightarrow> ratio this \<noteq> 0 \<longrightarrow>
        returned_frames (push this store frame) = Some frames \<longrightarrow>
        map (\<lambda>fr. length (data fr)) frames
          = [nat \<lfloor>fl (of_nat (length (data (store ! frame))) / ratio this)\<rfloor>])
   \<and> (sampleRate (store ! frame) = outputRate this \<longrightarrow>
        map_option (map (\<lambda>fr. length (data fr))) (returned_frames (push this store frame))
          = Some [length (data (store ! frame))])
   \<and> resample22To24 [] = []
   \<and> (data (store ! frame) = [] \<longrightarrow>
        map_option (map data) (returned_frames (push this store frame)) = Some [[]])"
proof (intro conjI impI)
  assume "length samples < 2 ^ 32"
  then show "length (resample22To24 samples) = spec_length (length samples) 22050 24000"
    by (simp add: length_resample22To24 spec_length_def)
next
  assume r: "0 < input_rate" "input_rate < 2 ^ 19" "0 < output_rate" "output_rate < 2 ^ 19"
    and n: "n < 2 ^ 32"
  obtain N where N: "outputSampleCount_of n (ddiv (of_nat input_rate) (of_nat output_rate)) = Inr N"
    "N = n * output_rate div input_rate \<or> N + 1 = n * output_rate div input_rate"
    using push_count_near_spec[OF r n] by blast
  have "Math_floor (ddiv (of_nat n) (ddiv (of_nat input_rate) (of_nat output_rate))) = int N"
    using N(1) by (rule count_floor)
  moreover have "int N = int (n * output_rate div input_rate)
      \<or> int N + 1 = int (n * output_rate div input_rate)"
    using N(2) by auto
  ultimately show "let outputSampleCount =
               Math_floor (ddiv (of_nat n)
                 (ratio (AudioResampler_new (of_nat input_rate) (of_nat output_rate))))
         in outputSampleCount = int (spec_length n input_rate output_rate)
            \<or> outputSampleCount + 1 = int (spec_length n input_rate output_rate)"
    unfolding Let_def ratio_new spec_length_def by simp
next
  assume r: "0 < input_rate" "input_rate < 2 ^ 19" "0 < output_rate" "output_rate < 2 ^ 19"
    and n: "length (data (store ! frame)) < 2 ^ 32"
    and s: "sampleRate (store ! frame) \<noteq> of_nat output_rate"
    and ret: "returned_frames (push (AudioResampler_new (of_nat input_rate) (of_nat output_rate))
                store frame) = Some frames"
  obtain N where N: "outputSampleCount_of (length (data (store ! frame)))
        (ddiv (of_nat input_rate) (of_nat output_rate)) = Inr N"
    "N = length (data (store ! frame)) * output_rate div input_rate
     \<or> N + 1 = length (data (store ! frame)) * output_rate div input_rate"
    using push_count_near_spec[OF r n] by blast
  define fr where "fr = \<lparr>data = map (push_sample (data (store ! frame))
          (ddiv (of_nat input_rate) (of_nat output_rate))) [0..<N],
       sampleRate = of_nat output_rate, channels = channels (store ! frame),
       samplesPerChannel = (if channels (store ! frame) = 0
            \<or> ddiv (of_nat input_rate) (of_nat output_rate) = 0 then None
          else Some (ddiv (of_nat N) (channels (store ! frame))))\<rparr>"
  have "returned_frames (push (AudioResampler_new (of_nat input_rate) (of_nat output_rate))
                store frame) = Some [fr]"
    using s N(1) by (simp add: returned_frames_push ratio_new outputRate_new fr_def)
  then have "frames = [fr]" using ret by simp
  moreover have "length (data fr) = N" by (simp add: fr_def)
  ultimately show "\<exists>fr. frames = [fr]
         \<and> (length (data fr) = spec_length (length (data (store ! frame))) input_rate output_rate
              \<or> length (data fr) + 1
                  = spec_length (length (data (store ! frame))) input_rate output_rate)"
    using N(2) unfolding spec_length_def by blast
next
  assume a: "sampleRate (store ! frame) \<noteq> outputRate this" "ratio this \<noteq> 0"
    "returned_frames (push this store frame) = Some frames"
  show "map (\<lambda>fr. length (data fr)) frames
          = [nat \<lfloor>fl (of_nat (length (data (store ! frame))) / ratio this)\<rfloor>]"
  proof (cases "outputSampleCount_of (length (data (store ! frame))) (ratio this)")
    case (Inl e)
    then show ?thesis using a by (simp add: returned_frames_push)
  next
    case (Inr N)
    then show ?thesis
      using a count_of_nonzero_ratio[OF a(2) Inr] by (auto simp: returned_frames_push)
  qed
next
  assume "sampleRate (store ! frame) = outputRate this"
  then show "map_option (map (\<lambda>fr. length (data fr))) (returned_frames (push this store frame))
          = Some [length (data (store ! frame))]"
    by (simp add: returned_frames_push)
next
  show "resample22To24 [] = []" by (rule resample22To24_empty)
next
  assume "data (store ! frame) = []"
  then show "map_option (map data) (returned_frames (push this store frame)) = Some [[]]"
    by (simp add: returned_frames_push count_of_empty)
qed

theorem output_lengths_witness:
  "length [0, 100, 200, 300 :: int] < 2 ^ 32
   \<and> length (resample22To24 [0, 100, 200, 300]) < 2 ^ 32
   \<and> length (resample22To24 [0, 100, 200, 300]) = spec_length (length [0, 100, 200, 300 :: int]) 22050 24000
   \<and> (0::nat) < 48000 \<and> (48000::nat) < 2 ^ 19 \<and> (0::nat) < 24000 \<and> (24000::nat) < 2 ^ 19
   \<and> (4::nat) < 2 ^ 32
   \<and> (let outputSampleCount =
             Math_floor (ddiv (of_nat 4) (ratio (AudioResampler_new (of_nat 48000) (of_nat 24000))))
       in outputSampleCount = int (spec_length 4 48000 24000)
          \<or> outputSampleCount + 1 = int (spec_length 4 48000 24000))
   \<and> length (data ([\<lparr>data = [1, 2, 3, 4], sampleRate = 48000, channels = 1,
                      samplesPerChannel = Some 4\<rparr>] ! 0)) < 2 ^ 32
   \<and> sampleRate ([\<lparr>data = [1, 2, 3, 4], sampleRate = 48000, channels = 1,
                      samplesPerChannel = Some 4\<rparr>] ! 0) \<noteq> of_nat 24000
   \<and> returned_frames (push (AudioResampler_new (of_nat 48000) (of_nat 24000))
            [\<lparr>data = [1, 2, 3, 4], sampleRate = 48000, channels = 1, samplesPerChannel = Some 4\<rparr>] 0)
          = Some [\<lparr>data = map (push_sample [1, 2, 3, 4] 2) [0..<2], sampleRate = 24000, channels = 1,
                 samplesPerChannel = Some (ddiv (of_nat 2) 1)\<rparr>]
   \<and> (\<exists>fr. [\<lparr>data = map (push_sample [1, 2, 3, 4] 2) [0..<2], sampleRate = 24000, channels = 1,
                 samplesPerChannel = Some (ddiv (of_nat 2) 1)\<rparr>] = [fr]
        \<and> (length (data fr) = spec_length (length (data ([\<lparr>data = [1, 2, 3, 4], sampleRate = 48000,
                 channels = 1, samplesPerChannel = Some 4\<rparr>] ! 0))) 48000 24000
             \<or> length (data fr) + 1 = spec_length (length (data ([\<lparr>data = [1, 2, 3, 4],
                 sampleRate = 48000, channels = 1, samplesPerChannel = Some 4\<rparr>] ! 0))) 48000 24000))
   \<and> sampleRate ([\<lparr>data = [1, 2, 3, 4], sampleRate = 48000, channels = 1,
                      samplesPerChannel = Some 4\<rparr>] ! 0) \<noteq> outputRate (AudioResampler_new 48000 24000)
   \<and> ratio (AudioResampler_new 48000 24000) \<noteq> 0
   \<and> returned_frames (push (AudioResampler_new 48000 24000)
         [\<lparr>data = [1, 2, 3, 4], sampleRate = 48000, channels = 1, samplesPerChannel = Some 4\<rparr>] 0)
       = Some [\<lparr>data = map (push_sample [1, 2, 3, 4] 2) [0..<2], sampleRate = 24000, channels = 1,
                 samplesPerChannel = Some (ddiv (of_nat 2) 1)\<rparr>]
   \<and> map (\<lambda>fr. length (data fr))
         [\<lparr>data = map (push_sample [1, 2, 3, 4] 2) [0..<2], sampleRate = 24000, channels = 1,
            samplesPerChannel = Some (ddiv (of_nat 2) 1)\<rparr>]
       = [nat \<lfloor>fl (of_nat (length (data ([\<lparr>data = [1, 2, 3, 4], sampleRate = 48000, channels = 1,
                      samplesPerChannel = Some 4\<rparr>] ! 0))) / ratio (AudioResampler_new 48000 24000))\<rfloor>]
   \<and> sampleRate ([\<lparr>data = [1, 2, 3, 4], sampleRate = 24000, channels = 1,
                      samplesPerChannel = Some 4\<rparr>] ! 0) = outputRate (AudioResampler_new 48000 24000)
   \<and> map_option (map (\<lambda>fr. length (data fr))) (returned_frames (push (AudioResampler_new 48000 24000)
         [\<lparr>data = [1, 2, 3, 4], sampleRate = 24000, channels = 1, samplesPerChannel = Some 4\<rparr>] 0))
       = Some [length (data ([\<lparr>data = [1, 2, 3, 4], sampleRate = 24000, channels = 1,
                      samplesPerChannel = Some 4\<rparr>] ! 0))]
   \<and> resample22To24 [] = []
   \<and> data ([\<lparr>data = [], sampleRate = 48000, channels = 1, samplesPerChannel = Some 0\<rparr>] ! 0) = []
   \<and> map_option (map data) (returned_frames (push (AudioResampler_new 48000 24000)
         [\<lparr>data = [], sampleRate = 48000, channels = 1, samplesPerChannel = Some 0\<rparr>] 0)) = Some [[]]"
proof -
  let ?rs = "AudioResampler_new 48000 24000"
  let ?s48 = "[\<lparr>data = [1, 2, 3, 4], sampleRate = 48000, channels = 1, samplesPerChannel = Some 4\<rparr>]"
  let ?s24 = "[\<lparr>data = [1, 2, 3, 4], sampleRate = 24000, channels = 1, samplesPerChannel = Some 4\<rparr>]"
  let ?s0 = "[\<lparr>data = [], sampleRate = 48000, channels = 1, samplesPerChannel = Some 0\<rparr>]"
  let ?out = "[\<lparr>data = map (push_sample [1, 2, 3, 4] 2) [0..<2], sampleRate = 24000, channels = 1,
                 samplesPerChannel = Some (ddiv (of_nat 2) 1)\<rparr>]"
  have n: "length [0, 100, 200, 300 :: int] < 2 ^ 32" by simp
  have m: "length (resample22To24 [0, 100, 200, 300]) < 2 ^ 32"
    by (simp add: resample22To24_example)
  have r: "(0::nat) < 48000" "(48000::nat) < 2 ^ 19" "(0::nat) < 24000" "(24000::nat) < 2 ^ 19"
    by simp_all
  have k: "length (data (?s48 ! 0)) < 2 ^ 32" by simp
  have s: "sampleRate (?s48 ! 0) \<noteq> of_nat 24000" by simp
  have a: "sampleRate (?s48 ! 0) \<noteq> outputRate ?rs" by (simp add: outputRate_new)
  have b: "ratio ?rs \<noteq> 0" by (simp add: ratio_48000_24000)
  have "outputSampleCount_of (length [1, 2, 3, 4 :: 16 word]) 2 = Inr 2"
    using count_at_ratio_2[of "length [1, 2, 3, 4 :: 16 word]"] by simp
  then have c: "returned_frames (push ?rs ?s48 0) = Some ?out"
    unfolding returned_frames_push
    by (simp only: nth_Cons_0 AudioFrame.simps outputRate_new ratio_48000_24000) simp
  have c': "returned_frames (push (AudioResampler_new (of_nat 48000) (of_nat 24000)) ?s48 0) = Some ?out"
    using c by simp
  have d: "sampleRate (?s24 ! 0) = outputRate ?rs" by (simp add: outputRate_new)
  have e: "data (?s0 ! 0) = []" by simp
  have k4: "(4::nat) < 2 ^ 32" by simp
  note w1 = output_lengths[where samples = "[0, 100, 200, 300]" and store = ?s48 and frame = 0
      and this = ?rs and frames = ?out and input_rate = 48000 and output_rate = 24000 and n = 4]
  note w2 = output_lengths[where samples = "[0, 100, 200, 300]" and store = ?s24 and frame = 0
      and this = ?rs and frames = ?out]
  note w3 = output_lengths[where samples = "[0, 100, 200, 300]" and store = ?s0 and frame = 0
      and this = ?rs and frames = ?out]
  show ?thesis
    using n m r k4 k s c' a b c d e
      w1[THEN conjunct1, rule_format, OF n m]
      w1[THEN conjunct2, THEN conjunct1, rule_format, OF r k4]
      w1[THEN conjunct2, THEN conjunct2, THEN conjunct1, rule_format, OF r k s c']
      w1[THEN conjunct2, THEN conjunct2, THEN conjunct2, THEN conjunct1, rule_format, OF a b c]
      w2[THEN conjunct2, THEN conjunct2, THEN conjunct2, THEN conjunct2, THEN conjunct1,
        rule_format, OF d]
      w1[THEN conjunct2, THEN conjunct2, THEN conjunct2, THEN conjunct2, THEN conjunct2,
        THEN conjunct1]
      w3[THEN conjunct2, THEN conjunct2, THEN conjunct2, THEN conjunct2, THEN conjunct2,
        THEN conjunct2, rule_format, OF e]
    by (intro conjI)
qed

lemma count_9_7:
  "outputSampleCount_of (length [0, 0, 0, 0, 0, 0, 0, 0, 0 :: 16 word])
     (ratio (AudioResampler_new 9 7)) = Inr 6"
  by code_simp

lemma ratio_9_7: "ratio (AudioResampler_new 9 7) \<noteq> 0"
  by code_simp

text \<open>
  Claim C2 as the specification states it fails for \<open>AudioResampler\<close>: with the rates 9
  and 7 the ratio is the double nearest to \<open>9 / 7\<close>, which lies above it, the double
  quotient \<open>9 / ratio\<close> falls just below 7, and a frame of 9 samples yields 6 samples,
  not \<open>floor (9 * 7 / 9) = 7\<close>.
\<close>

theorem push_length_below_specification:
  "map_option (map (\<lambda>fr. length (data fr)))
     (returned_frames (push (AudioResampler_new 9 7)
        [\<lparr>data = [0, 0, 0, 0, 0, 0, 0, 0, 0], sampleRate = 9, channels = 1,
           samplesPerChannel = Some 9\<rparr>] 0))
   \<noteq> Some [spec_length 9 9 7]"
proof -
  have "returned_frames (push (AudioResampler_new 9 7)
        [\<lparr>data = [0, 0, 0, 0, 0, 0, 0, 0, 0], sampleRate = 9, channels = 1,
           samplesPerChannel = Some 9\<rparr>] 0)
      = Some [\<lparr>data = map (push_sample [0, 0, 0, 0, 0, 0, 0, 0, 0] (ratio (AudioResampler_new 9 7))) [0..<6],
                sampleRate = 7, channels = 1, samplesPerChannel = Some (ddiv (of_nat 6) 1)\<rparr>]"
    unfolding returned_frames_push
    by (simp only: nth_Cons_0 AudioFrame.simps outputRate_new count_9_7) (simp add: ratio_9_7)
  then show ?thesis by (simp add: spec_length_def)
qed

section \<open>The double interpolation against the exact one\<close>

lemma fl_unit:
  assumes "0 \<le> x" "x \<le> 1"
  shows "0 \<le> fl x" "fl x \<le> 1" "\<bar>fl x - x\<bar> \<le> 1 / 2 ^ 52"
proof -
  show "0 \<le> fl x" using assms(1) by (rule fl_nonneg)
  have "\<bar>x\<bar> < 2 ^ 53" using assms by simp
  then show "fl x \<le> 1" using fl_le_int[of x 1] assms(2) by simp
  show "\<bar>fl x - x\<bar> \<le> 1 / 2 ^ 52" using fl_err[of 1 x] assms by simp
qed

text \<open>
  The interpolation in double arithmetic, against the exact one: five roundings, for
  samples of magnitude at most \<open>B\<close> and an exact fraction \<open>f0\<close> in the unit interval.
\<close>

lemma interpolation_error:
  assumes A: "\<bar>A\<bar> \<le> B" and C: "\<bar>C\<bar> \<le> B" and B: "1 \<le> B"
    and f0: "0 \<le> f0" "f0 \<le> 1"
  shows "\<bar>dadd (dmul A (dsub 1 (fl f0))) (dmul C (fl f0)) - (A * (1 - f0) + C * f0)\<bar>
          \<le> 7 * B / 2 ^ 52"
proof -
  define u :: rat where "u = 1 / 2 ^ 52"
  define f where "f = fl f0"
  define g where "g = fl (1 - f)"
  define p1 where "p1 = fl (A * g)"
  define p2 where "p2 = fl (C * f)"
  have u: "0 < u" "u \<le> 1" by (simp_all add: u_def)
  have f: "0 \<le> f" "f \<le> 1" "\<bar>f - f0\<bar> \<le> u"
    using fl_unit[OF f0] by (simp_all add: f_def u_def)
  have g: "0 \<le> g" "g \<le> 1" "\<bar>g - (1 - f)\<bar> \<le> u"
    using fl_unit[of "1 - f"] f(1,2) by (simp_all add: g_def u_def)
  have B0: "0 \<le> B" using B by simp
  have Ag: "\<bar>A * g\<bar> \<le> B"
  proof -
    have "\<bar>A * g\<bar> = \<bar>A\<bar> * g" using g(1) by (simp add: abs_mult)
    also have "\<dots> \<le> B * 1" using A g(1,2) by (intro mult_mono) simp_all
    finally show ?thesis by simp
  qed
  have Cf: "\<bar>C * f\<bar> \<le> B"
  proof -
    have "\<bar>C * f\<bar> = \<bar>C\<bar> * f" using f(1) by (simp add: abs_mult)
    also have "\<dots> \<le> B * 1" using C f(1,2) by (intro mult_mono) simp_all
    finally show ?thesis by simp
  qed
  have e1: "\<bar>p1 - A * g\<bar> \<le> B * u"
    using fl_err[OF B Ag] by (simp add: p1_def u_def)
  have e2: "\<bar>p2 - C * f\<bar> \<le> B * u"
    using fl_err[OF B Cf] by (simp add: p2_def u_def)
  have d1: "\<bar>A * g - A * (1 - f0)\<bar> \<le> B * (2 * u)"
  proof -
    have "\<bar>g - (1 - f0)\<bar> \<le> 2 * u" using g(3) f(3) by linarith
    moreover have "\<bar>A * g - A * (1 - f0)\<bar> = \<bar>A\<bar> * \<bar>g - (1 - f0)\<bar>"
      by (simp add: abs_mult flip: right_diff_distrib)
    ultimately show ?thesis using A B0 by (simp add: mult_mono)
  qed
  have d2: "\<bar>C * f - C * f0\<bar> \<le> B * u"
  proof -
    have "\<bar>C * f - C * f0\<bar> = \<bar>C\<bar> * \<bar>f - f0\<bar>"
      by (simp add: abs_mult flip: right_diff_distrib)
    then show ?thesis using C B0 f(3) by (simp add: mult_mono)
  qed
  define E where "E = A * (1 - f0) + C * f0"
  have Eb: "\<bar>E\<bar> \<le> B"
  proof -
    have "\<bar>A * (1 - f0)\<bar> \<le> B * (1 - f0)" using A f0 by (simp add: abs_mult mult_right_mono)
    moreover have "\<bar>C * f0\<bar> \<le> B * f0" using C f0 by (simp add: abs_mult mult_right_mono)
    ultimately have "\<bar>E\<bar> \<le> B * (1 - f0) + B * f0" unfolding E_def by linarith
    then show ?thesis by (simp add: algebra_simps)
  qed
  have Bu: "0 \<le> B * u" using B0 u by simp
  have s: "\<bar>p1 + p2 - E\<bar> \<le> 5 * (B * u)"
    using e1 e2 d1 d2 unfolding E_def by (simp add: algebra_simps)
  have "5 * u \<le> 1" by (simp add: u_def)
  then have "B * (5 * u) \<le> B * 1" using B0 by (intro mult_left_mono) simp_all
  then have "\<bar>p1 + p2\<bar> \<le> 2 * B" using s Eb by linarith
  then have "\<bar>fl (p1 + p2) - (p1 + p2)\<bar> \<le> (2 * B) / 2 ^ 52"
    using B by (intro fl_err) simp_all
  then have "\<bar>fl (p1 + p2) - (p1 + p2)\<bar> \<le> 2 * (B * u)" by (simp add: u_def)
  then have "\<bar>fl (p1 + p2) - E\<bar> \<le> 7 * (B * u)" using s by linarith
  then show ?thesis
    by (simp add: dadd_def dmul_def dsub_def E_def p1_def p2_def g_def f_def u_def)
qed

lemma interpolation_between:
  fixes A C f0 :: rat
  assumes "0 \<le> f0" "f0 \<le> 1"
  shows "min A C \<le> A * (1 - f0) + C * f0" and "A * (1 - f0) + C * f0 \<le> max A C"
proof -
  have e: "A * (1 - f0) + C * f0 = A + (C - A) * f0" by (simp add: algebra_simps)
  show "min A C \<le> A * (1 - f0) + C * f0"
  proof (cases "A \<le> C")
    case True
    then have "0 \<le> (C - A) * f0" using assms(1) by simp
    then show ?thesis using True unfolding e by simp
  next
    case False
    then have "(A - C) * f0 \<le> (A - C) * 1" using assms(2) by (intro mult_left_mono) simp_all
    then show ?thesis using False unfolding e by (simp add: algebra_simps)
  qed
  show "A * (1 - f0) + C * f0 \<le> max A C"
  proof (cases "A \<le> C")
    case True
    then have "(C - A) * f0 \<le> (C - A) * 1" using assms(2) by (intro mult_left_mono) simp_all
    then show ?thesis using True unfolding e by (simp add: algebra_simps)
  next
    case False
    then have "0 \<le> (A - C) * f0" using assms(1) by simp
    then show ?thesis using False unfolding e by (simp add: algebra_simps)
  qed
qed

lemma Math_round_le:
  assumes "x \<le> of_int k + d" "d < 1 / 2"
  shows "Math_round x \<le> k"
proof -
  have "x + 1 / 2 < of_int (k + 1)" using assms by simp
  then have "\<lfloor>x + 1 / 2\<rfloor> < k + 1" by (simp only: floor_less_iff)
  then show ?thesis by (simp add: Math_round_def)
qed

lemma Math_round_ge:
  assumes "of_int k - d \<le> x" "d \<le> 1 / 2"
  shows "k \<le> Math_round x"
proof -
  have "of_int k \<le> x + 1 / 2" using assms by simp
  then show ?thesis by (simp add: Math_round_def le_floor_iff)
qed

lemma Math_round_mono: "x \<le> y \<Longrightarrow> Math_round x \<le> Math_round y"
  by (simp add: Math_round_def floor_mono)

lemma sample_near_exact:
  assumes n: "length samples < 2 ^ 32"
    and i: "i < length (resample22To24 samples)"
    and B: "\<forall>x \<in> set samples. \<bar>x\<bar> \<le> 2 ^ 47"
  obtains v where "resample22To24 samples ! i = Some (Math_round v)"
    and "\<bar>v - interpolate_exact samples (ddiv (of_nat i) (ddiv 24000 22050))\<bar> \<le> 7 / 32"
proof -
  define s where "s = ddiv (of_nat i) (ddiv 24000 22050)"
  define k where "k = Math_floor s"
  define c where "c = min (k + 1) (int (length samples) - 1)"
  define f0 where "f0 = s - of_int k"
  define A :: rat where "A = of_int (samples ! nat k)"
  define C :: rat where "C = of_int (samples ! nat c)"
  have i': "i < length samples * 24000 div 22050" using i n by (simp add: length_resample22To24)
  have k: "0 \<le> k" "k < int (length samples)"
    using srcIndexFloor_range[OF n i'] by (simp_all add: k_def s_def)
  have c: "0 \<le> c" "c < int (length samples)" using ceil_in_range[OF k] by (simp_all add: c_def)
  have f0: "0 \<le> f0" "f0 \<le> 1" unfolding f0_def k_def Math_floor_def by linarith+
  have "samples ! nat k \<in> set samples" "samples ! nat c \<in> set samples" using k c by simp_all
  then have "\<bar>samples ! nat k\<bar> \<le> 2 ^ 47" "\<bar>samples ! nat c\<bar> \<le> 2 ^ 47" using B by blast+
  then have "(of_int \<bar>samples ! nat k\<bar> :: rat) \<le> 2 ^ 47" "(of_int \<bar>samples ! nat c\<bar> :: rat) \<le> 2 ^ 47"
    by (simp_all only: of_int_le_numeral_power_cancel_iff)
  then have AC: "\<bar>A\<bar> \<le> 2 ^ 47" "\<bar>C\<bar> \<le> 2 ^ 47" by (simp_all add: A_def C_def)
  define v where "v = dadd (dmul A (dsub 1 (fl f0))) (dmul C (fl f0))"
  have "\<bar>v - (A * (1 - f0) + C * f0)\<bar> \<le> 7 * 2 ^ 47 / 2 ^ 52"
    unfolding v_def by (rule interpolation_error[OF AC _ f0]) simp
  then have e: "\<bar>v - interpolate_exact samples s\<bar> \<le> 7 / 32"
    by (simp add: interpolate_exact_def Let_def A_def C_def f0_def c_def k_def Math_floor_def)
  have "resample22To24 samples ! i = Some (Math_round v)"
    unfolding nth_resample22To24[OF i]
    using resample_sample_in_range[of i "ddiv 24000 22050" samples] k
    by (simp add: v_def A_def C_def c_def f0_def k_def s_def dsub_def)
  then show ?thesis using e that unfolding s_def by blast
qed

lemma interpolate_exact_bounds:
  assumes "0 \<le> s" "\<lfloor>s\<rfloor> < int (length xs)"
  shows "of_int (min (xs ! nat \<lfloor>s\<rfloor>) (xs ! nat (min (\<lfloor>s\<rfloor> + 1) (int (length xs) - 1))))
           \<le> interpolate_exact xs s"
    and "interpolate_exact xs s
           \<le> of_int (max (xs ! nat \<lfloor>s\<rfloor>) (xs ! nat (min (\<lfloor>s\<rfloor> + 1) (int (length xs) - 1))))"
proof -
  have f0: "0 \<le> s - of_int \<lfloor>s\<rfloor>" "s - of_int \<lfloor>s\<rfloor> \<le> 1" by linarith+
  show "of_int (min (xs ! nat \<lfloor>s\<rfloor>) (xs ! nat (min (\<lfloor>s\<rfloor> + 1) (int (length xs) - 1))))
           \<le> interpolate_exact xs s"
    using interpolation_between(1)[OF f0] by (simp add: interpolate_exact_def Let_def of_int_min)
  show "interpolate_exact xs s
           \<le> of_int (max (xs ! nat \<lfloor>s\<rfloor>) (xs ! nat (min (\<lfloor>s\<rfloor> + 1) (int (length xs) - 1))))"
    using interpolation_between(2)[OF f0] by (simp add: interpolate_exact_def Let_def of_int_max)
qed

lemma sint16_of_int:
  "- 32768 \<le> k \<Longrightarrow> k \<le> 32767 \<Longrightarrow> sint (word_of_int k :: 16 word) = k"
  by (simp add: signed_take_bit_int_eq_self sint_sbintrunc')

lemma nth_nat_mem: "0 \<le> k \<Longrightarrow> k < int (length xs) \<Longrightarrow> xs ! nat k \<in> set xs"
  by (simp add: nat_less_iff)

lemma sample_between_neighbours:
  assumes n: "length samples < 2 ^ 32"
    and i: "i < length (resample22To24 samples)"
    and B: "\<forall>x \<in> set samples. \<bar>x\<bar> \<le> 2 ^ 47"
  obtains v a b where "resample22To24 samples ! i = Some v"
    and "a \<in> set samples" "b \<in> set samples" "min a b \<le> v" "v \<le> max a b"
proof -
  define s where "s = ddiv (of_nat i) (ddiv 24000 22050)"
  have i': "i < length samples * 24000 div 22050" using i n by (simp add: length_resample22To24)
  have k: "0 \<le> \<lfloor>s\<rfloor>" "\<lfloor>s\<rfloor> < int (length samples)"
    using srcIndexFloor_range[OF n i'] by (simp_all add: s_def Math_floor_def)
  have s0: "0 \<le> s" using srcIndex_range(1)[OF n i'] by (simp add: s_def)
  define a where "a = samples ! nat \<lfloor>s\<rfloor>"
  define b where "b = samples ! nat (min (\<lfloor>s\<rfloor> + 1) (int (length samples) - 1))"
  have c: "0 \<le> min (\<lfloor>s\<rfloor> + 1) (int (length samples) - 1)"
    "min (\<lfloor>s\<rfloor> + 1) (int (length samples) - 1) < int (length samples)"
    using ceil_in_range[OF k] by simp_all
  have ab: "a \<in> set samples" "b \<in> set samples"
    unfolding a_def b_def by (rule nth_nat_mem[OF k], rule nth_nat_mem[OF c])
  obtain v where v: "resample22To24 samples ! i = Some (Math_round v)"
    "\<bar>v - interpolate_exact samples s\<bar> \<le> 7 / 32"
    using sample_near_exact[OF n i B] unfolding s_def by blast
  have L: "of_int (min a b) \<le> interpolate_exact samples s"
    "interpolate_exact samples s \<le> of_int (max a b)"
    using interpolate_exact_bounds[OF s0 k(2)] by (simp_all add: a_def b_def)
  have "of_int (min a b) - 7 / 32 \<le> v" using v(2) L(1) by linarith
  then have lo: "min a b \<le> Math_round v" by (rule Math_round_ge) simp
  have "v \<le> of_int (max a b) + 7 / 32" using v(2) L(2) by linarith
  then have hi: "Math_round v \<le> max a b" by (rule Math_round_le) simp
  show ?thesis using that[OF v(1) ab lo hi] .
qed

lemma strictly_increasing_nth:
  assumes "sorted_wrt (<) (xs :: int list)" "0 \<le> p" "p \<le> q" "q < int (length xs)"
  shows "xs ! nat p \<le> xs ! nat q"
proof (cases "p = q")
  case True
  then show ?thesis by simp
next
  case False
  then have "nat p < nat q" "nat q < length xs" using assms(2,3,4) by linarith+
  then have "xs ! nat p < xs ! nat q" by (rule sorted_wrt_nth_less[OF assms(1)])
  then show ?thesis by simp
qed

lemma interpolation_slope: "A * (1 - f) + C * f = A + (C - A) * (f :: rat)"
  by (simp add: algebra_simps)

lemma slope_difference: "(m::rat) * (x - k) - m * (y - k) = m * (x - y)"
  by (simp add: algebra_simps)

section \<open>The code against the exact interpolation\<close>

lemma abs_diff_samples:
  fixes a b :: int
  assumes "\<bar>a\<bar> \<le> B" "\<bar>b\<bar> \<le> B"
  shows "\<bar>(of_int b :: rat) - of_int a\<bar> \<le> 2 * of_int B"
proof -
  have "\<bar>b - a\<bar> \<le> 2 * B" using assms by linarith
  then have "(of_int \<bar>b - a\<bar> :: rat) \<le> of_int (2 * B)" by (simp only: of_int_le_iff)
  then show ?thesis by simp
qed

lemma interpolate_exact_slope:
  "interpolate_exact xs s =
     of_int (xs ! nat \<lfloor>s\<rfloor>)
     + (of_int (xs ! nat (min (\<lfloor>s\<rfloor> + 1) (int (length xs) - 1))) - of_int (xs ! nat \<lfloor>s\<rfloor>))
       * (s - of_int \<lfloor>s\<rfloor>)"
  unfolding interpolate_exact_def Let_def by (rule interpolation_slope)

text \<open>
  The exact interpolation is continuous across the samples: two positions less than one
  apart give values that differ by at most the largest step between samples times the
  distance.
\<close>

lemma interpolate_exact_lipschitz:
  assumes B: "\<forall>x \<in> set xs. \<bar>x\<bar> \<le> B"
    and s: "0 \<le> s" and st: "s \<le> t" "t < s + 1" and t: "\<lfloor>t\<rfloor> < int (length xs)"
  shows "\<bar>interpolate_exact xs t - interpolate_exact xs s\<bar> \<le> 2 * of_int B * (t - s)"
proof -
  define n where "n = int (length xs)"
  define ks where "ks = \<lfloor>s\<rfloor>"
  define kt where "kt = \<lfloor>t\<rfloor>"
  have ks0: "0 \<le> ks" using s by (simp add: ks_def)
  have kst: "ks \<le> kt" unfolding ks_def kt_def using st(1) by (rule floor_mono)
  have "t < of_int (ks + 1) + 1" using st(2) unfolding ks_def by linarith
  then have "kt < ks + 2" unfolding kt_def by (simp add: floor_less_iff)
  then have kt: "kt = ks \<or> kt = ks + 1" using kst by linarith
  have ktn: "kt < n" using t by (simp add: kt_def n_def)
  have mem: "xs ! nat k \<in> set xs" if "0 \<le> k" "k < n" for k
    using that unfolding n_def by (rule nth_nat_mem)
  have bnd: "\<bar>(of_int (xs ! nat j) :: rat) - of_int (xs ! nat k)\<bar> \<le> 2 * of_int B"
    if "0 \<le> k" "k < n" "0 \<le> j" "j < n" for j k
    using abs_diff_samples[of "xs ! nat k" B "xs ! nat j"] B mem[OF that(1,2)] mem[OF that(3,4)]
    by blast
  define cs where "cs = min (ks + 1) (n - 1)"
  define ct where "ct = min (kt + 1) (n - 1)"
  have cs: "0 \<le> cs" "cs < n" using ks0 kst ktn by (simp_all add: cs_def)
  have ct: "0 \<le> ct" "ct < n" using ks0 kst ktn by (simp_all add: ct_def)
  define As :: rat where "As = of_int (xs ! nat ks)"
  define Cs :: rat where "Cs = of_int (xs ! nat cs)"
  define At :: rat where "At = of_int (xs ! nat kt)"
  define Ct :: rat where "Ct = of_int (xs ! nat ct)"
  have Ls: "interpolate_exact xs s = As + (Cs - As) * (s - of_int ks)"
    unfolding interpolate_exact_slope As_def Cs_def cs_def ks_def n_def ..
  have Lt: "interpolate_exact xs t = At + (Ct - At) * (t - of_int kt)"
    unfolding interpolate_exact_slope At_def Ct_def ct_def kt_def n_def ..
  have ds: "\<bar>Cs - As\<bar> \<le> 2 * of_int B" unfolding Cs_def As_def
    using bnd[of ks cs] ks0 kst ktn cs by simp
  have dt: "\<bar>Ct - At\<bar> \<le> 2 * of_int B" unfolding Ct_def At_def
    using bnd[of kt ct] ks0 kst ktn ct by simp
  have B0: "(0::rat) \<le> 2 * of_int B" using ds by linarith
  have fs: "0 \<le> s - of_int ks" "s - of_int ks < 1" unfolding ks_def by linarith+
  have ft: "0 \<le> t - of_int kt" "t - of_int kt < 1" unfolding kt_def by linarith+
  from kt show ?thesis
  proof
    assume e: "kt = ks"
    then have "interpolate_exact xs t - interpolate_exact xs s = (Cs - As) * (t - s)"
      unfolding Ls Lt At_def As_def Ct_def Cs_def ct_def cs_def by (simp add: algebra_simps)
    then have "\<bar>interpolate_exact xs t - interpolate_exact xs s\<bar> = \<bar>Cs - As\<bar> * (t - s)"
      using st(1) by (simp add: abs_mult)
    also have "\<dots> \<le> 2 * of_int B * (t - s)" using ds st(1) by (intro mult_right_mono) simp_all
    finally show ?thesis .
  next
    assume e: "kt = ks + 1"
    then have "cs = kt" using ktn by (simp add: cs_def)
    then have CA: "Cs = At" by (simp add: Cs_def At_def)
    have of_kt: "(of_int kt :: rat) = of_int ks + 1" using e by simp
    have "At - interpolate_exact xs s = (At - As) * (of_int kt - s)"
      unfolding Ls CA of_kt by (simp add: algebra_simps)
    then have "\<bar>At - interpolate_exact xs s\<bar> = \<bar>At - As\<bar> * (of_int kt - s)"
      using fs(2) of_kt by (simp add: abs_mult)
    also have "\<dots> \<le> 2 * of_int B * (of_int kt - s)"
      using ds CA fs(2) of_kt by (intro mult_right_mono) simp_all
    finally have 1: "\<bar>At - interpolate_exact xs s\<bar> \<le> 2 * of_int B * (of_int kt - s)" .
    have "\<bar>interpolate_exact xs t - At\<bar> = \<bar>Ct - At\<bar> * (t - of_int kt)"
      unfolding Lt using ft(1) by (simp add: abs_mult)
    also have "\<dots> \<le> 2 * of_int B * (t - of_int kt)" using dt ft(1) by (intro mult_right_mono) simp_all
    finally have 2: "\<bar>interpolate_exact xs t - At\<bar> \<le> 2 * of_int B * (t - of_int kt)" .
    have "2 * of_int B * (of_int kt - s) + 2 * of_int B * (t - of_int kt) = 2 * of_int B * (t - s)"
      by (simp add: algebra_simps)
    then show ?thesis using 1 2 by linarith
  qed
qed

lemma spec_sample_22_24:
  "spec_sample 22050 24000 xs i = Math_round (interpolate_exact xs (of_nat i * (147 / 160)))"
  by (simp add: spec_sample_def interpolate_exact_def Math_round_def Let_def)

lemma Math_round_close:
  assumes "\<bar>x - y\<bar> < 1"
  shows "\<bar>Math_round x - Math_round y\<bar> \<le> 1"
proof -
  have "x + 1 / 2 < (y + 1 / 2) + 1" "y + 1 / 2 < (x + 1 / 2) + 1" using assms by linarith+
  then have "\<lfloor>x + 1 / 2\<rfloor> \<le> \<lfloor>y + 1 / 2\<rfloor> + 1" "\<lfloor>y + 1 / 2\<rfloor> \<le> \<lfloor>x + 1 / 2\<rfloor> + 1"
    by linarith+
  then show ?thesis by (simp add: Math_round_def)
qed

lemma srcIndex_near_exact:
  assumes "n < 2 ^ 32" "i < n * 24000 div 22050"
  shows "\<bar>ddiv (of_nat i) (ddiv 24000 22050) - of_nat i * (147 / 160)\<bar> \<le> 1 / 262144"
    and "(of_nat i :: rat) * (147 / 160) < of_nat n"
proof -
  note e = srcIndex_err[OF assms]
  have i0: "(0::rat) \<le> of_nat i" by simp
  show "\<bar>ddiv (of_nat i) (ddiv 24000 22050) - of_nat i * (147 / 160)\<bar> \<le> 1 / 262144"
    using e i0 by linarith
  show "(of_nat i :: rat) * (147 / 160) < of_nat n" using e(2) by linarith
qed

lemma sample_near_specified:
  assumes n: "length samples < 2 ^ 32"
    and i: "i < length (resample22To24 samples)"
    and r: "\<forall>x \<in> set samples. - 32768 \<le> x \<and> x \<le> 32767"
  shows "\<exists>v. resample22To24 samples ! i = Some v \<and> \<bar>v - spec_sample 22050 24000 samples i\<bar> \<le> 1"
proof -
  define s where "s = ddiv (of_nat i) (ddiv 24000 22050)"
  define p :: rat where "p = of_nat i * (147 / 160)"
  have i': "i < length samples * 24000 div 22050" using i n by (simp add: length_resample22To24)
  have B: "\<forall>x \<in> set samples. \<bar>x\<bar> \<le> 32768" using r by (simp add: abs_le_iff) fastforce
  then have B47: "\<forall>x \<in> set samples. \<bar>x\<bar> \<le> 2 ^ 47" by fastforce
  obtain v where v: "resample22To24 samples ! i = Some (Math_round v)"
    "\<bar>v - interpolate_exact samples s\<bar> \<le> 7 / 32"
    using sample_near_exact[OF n i B47] unfolding s_def by blast
  have sp: "\<bar>s - p\<bar> \<le> 1 / 262144" and pn: "p < of_nat (length samples)"
    using srcIndex_near_exact[OF n i'] by (simp_all add: s_def p_def)
  have s0: "0 \<le> s" and sn: "s < of_nat (length samples)"
    using srcIndex_range[OF n i'] by (simp_all add: s_def)
  have p0: "0 \<le> p" by (simp add: p_def)
  have fs: "\<lfloor>s\<rfloor> < int (length samples)" using sn by (simp add: floor_less_iff)
  have fp: "\<lfloor>p\<rfloor> < int (length samples)" using pn by (simp add: floor_less_iff)
  have L: "\<bar>interpolate_exact samples s - interpolate_exact samples p\<bar> \<le> 1 / 4"
  proof (cases "s \<le> p")
    case True
    have "\<bar>interpolate_exact samples p - interpolate_exact samples s\<bar> \<le> 2 * of_int 32768 * (p - s)"
      using sp True by (intro interpolate_exact_lipschitz[OF B s0 True _ fp]) linarith
    then have "\<bar>interpolate_exact samples s - interpolate_exact samples p\<bar> \<le> 65536 * (p - s)"
      by (simp add: abs_minus_commute)
    moreover have "p - s \<le> \<bar>s - p\<bar>" by linarith
    then have "p - s \<le> 1 / 262144" using sp by (rule order_trans)
    then have "65536 * (p - s) \<le> 1 / 4" by simp
    ultimately show ?thesis by (rule order_trans)
  next
    case False
    then have ps: "p \<le> s" by simp
    have "\<bar>interpolate_exact samples s - interpolate_exact samples p\<bar> \<le> 2 * of_int 32768 * (s - p)"
      using sp ps by (intro interpolate_exact_lipschitz[OF B p0 ps _ fs]) linarith
    then have "\<bar>interpolate_exact samples s - interpolate_exact samples p\<bar> \<le> 65536 * (s - p)"
      by simp
    moreover have "s - p \<le> \<bar>s - p\<bar>" by linarith
    then have "s - p \<le> 1 / 262144" using sp by (rule order_trans)
    then have "65536 * (s - p) \<le> 1 / 4" by simp
    ultimately show ?thesis by (rule order_trans)
  qed
  have "\<bar>v - interpolate_exact samples p\<bar> < 1" using v(2) L by linarith
  then have "\<bar>Math_round v - Math_round (interpolate_exact samples p)\<bar> \<le> 1"
    by (rule Math_round_close)
  then show ?thesis using v(1) by (simp add: spec_sample_22_24 p_def)
qed

section \<open>Each output sample\<close>

text \<open>
  Claim C1, as amended. Each output sample is the rounded linear interpolation computed
  in double arithmetic, every operation rounded to the nearest double. In
  \<open>resample22To24\<close>, for input and output arrays (fewer than \<open>2 ^ 32\<close> elements), the
  sample at index \<open>i\<close> is
  \<open>Math.round (samples[f] * (1 - frac) + samples[c] * frac)\<close> at the position
  \<open>i / ratio\<close> with \<open>ratio = 24000 / 22050\<close>, \<open>f\<close> its floor, \<open>c = min (f + 1) (n - 1)\<close>
  and \<open>frac = position - f\<close>. In \<open>AudioResampler.push\<close>, on a frame whose
  \<open>sampleRate\<close> differs from the output rate and that yields fewer than \<open>2 ^ 48\<close>
  samples, the position is \<open>i * ratio\<close> with \<open>ratio = inputRate / outputRate\<close>, and
  the rounded value is stored as a 16-bit integer. For samples in the signed 16-bit
  range, each output sample of \<open>resample22To24\<close> differs by at most one from the
  rounding of the interpolation in exact arithmetic at the position
  \<open>i * 22050 / 24000\<close>.
\<close>

theorem samples_are_double_interpolations:
  "(length samples < 2 ^ 32 \<longrightarrow> length (resample22To24 samples) < 2 ^ 32 \<longrightarrow>
      (\<forall>i < length (resample22To24 samples).
         let position = ddiv (of_nat i) (ddiv 24000 22050);
             f = Math_floor position;
             c = min (f + 1) (int (length samples) - 1);
             frac = dsub position (of_int f)
         in resample22To24 samples ! i =
              Some (Math_round (dadd (dmul (of_int (samples ! nat f)) (dsub 1 frac))
                                     (dmul (of_int (samples ! nat c)) frac)))))
   \<and> (outRate \<noteq> 0 \<longrightarrow> sampleRate (store ! frame) \<noteq> outRate \<longrightarrow>
        outputSampleCount_of (length (data (store ! frame))) (ddiv inRate outRate) = Inr n \<longrightarrow>
        n < 2 ^ 48 \<longrightarrow>
      (\<exists>fr. returned_frames (push (AudioResampler_new inRate outRate) store frame) = Some [fr]
         \<and> length (data fr) = n
         \<and> (\<forall>i < n.
              let position = dmul (of_nat i) (ddiv inRate outRate);
                  f = Math_floor position;
                  c = min (f + 1) (int (length (data (store ! frame))) - 1);
                  frac = dsub position (of_int f)
              in data fr ! i =
                   word_of_int
                     (Math_round (dadd (dmul (of_int (sint (data (store ! frame) ! nat f))) (dsub 1 frac))
                                       (dmul (of_int (sint (data (store ! frame) ! nat c))) frac))))))
   \<and> (length samples < 2 ^ 32 \<longrightarrow> length (resample22To24 samples) < 2 ^ 32 \<longrightarrow>
        (\<forall>x \<in> set samples. - 32768 \<le> x \<and> x \<le> 32767) \<longrightarrow>
      (\<forall>i < length (resample22To24 samples).
         \<exists>v. resample22To24 samples ! i = Some v
            \<and> \<bar>v - spec_sample 22050 24000 samples i\<bar> \<le> 1))"
proof (intro conjI impI allI)
  fix i
  assume n: "length samples < 2 ^ 32" and i: "i < length (resample22To24 samples)"
  then have "i < length samples * 24000 div 22050" by (simp add: length_resample22To24)
  note k = srcIndexFloor_range[OF n this]
  show "let position = ddiv (of_nat i) (ddiv 24000 22050);
             f = Math_floor position;
             c = min (f + 1) (int (length samples) - 1);
             frac = dsub position (of_int f)
         in resample22To24 samples ! i =
              Some (Math_round (dadd (dmul (of_int (samples ! nat f)) (dsub 1 frac))
                                     (dmul (of_int (samples ! nat c)) frac)))"
    unfolding Let_def nth_resample22To24[OF i] by (rule resample_sample_in_range[OF k])
next
  let ?xs = "data (store ! frame)"
  assume "outRate \<noteq> 0"
  assume a: "sampleRate (store ! frame) \<noteq> outRate"
    and cnt: "outputSampleCount_of (length ?xs) (ddiv inRate outRate) = Inr n"
    and n: "n < 2 ^ 48"
  define fr where "fr = \<lparr>data = map (push_sample ?xs (ddiv inRate outRate)) [0..<n],
       sampleRate = outRate, channels = channels (store ! frame),
       samplesPerChannel = (if channels (store ! frame) = 0 \<or> ddiv inRate outRate = 0 then None
          else Some (ddiv (of_nat n) (channels (store ! frame))))\<rparr>"
  have r: "returned_frames (push (AudioResampler_new inRate outRate) store frame) = Some [fr]"
    using a cnt by (simp add: returned_frames_push ratio_new outputRate_new fr_def)
  have "let position = dmul (of_nat i) (ddiv inRate outRate);
                  f = Math_floor position;
                  c = min (f + 1) (int (length ?xs) - 1);
                  frac = dsub position (of_int f)
              in data fr ! i =
                   word_of_int
                     (Math_round (dadd (dmul (of_int (sint (?xs ! nat f))) (dsub 1 frac))
                                       (dmul (of_int (sint (?xs ! nat c))) frac)))"
    if i: "i < n" for i
  proof -
    note k = index0_range[OF cnt n i]
    have "data fr ! i = push_sample ?xs (ddiv inRate outRate) i" using i by (simp add: fr_def)
    then show ?thesis unfolding Let_def by (simp only: push_sample_in_range[OF k])
  qed
  moreover have "length (data fr) = n" by (simp add: fr_def)
  ultimately show "\<exists>fr. returned_frames (push (AudioResampler_new inRate outRate) store frame) = Some [fr]
         \<and> length (data fr) = n
         \<and> (\<forall>i < n.
              let position = dmul (of_nat i) (ddiv inRate outRate);
                  f = Math_floor position;
                  c = min (f + 1) (int (length (data (store ! frame))) - 1);
                  frac = dsub position (of_int f)
              in data fr ! i =
                   word_of_int
                     (Math_round (dadd (dmul (of_int (sint (data (store ! frame) ! nat f))) (dsub 1 frac))
                                       (dmul (of_int (sint (data (store ! frame) ! nat c))) frac))))"
    using r by blast
next
  fix i
  assume n: "length samples < 2 ^ 32" and i: "i < length (resample22To24 samples)"
    and r: "\<forall>x \<in> set samples. - 32768 \<le> x \<and> x \<le> 32767"
  show "\<exists>v. resample22To24 samples ! i = Some v
            \<and> \<bar>v - spec_sample 22050 24000 samples i\<bar> \<le> 1"
    by (rule sample_near_specified[OF n i r])
qed

theorem samples_are_double_interpolations_witness:
  "length [0, 100, 200, 300 :: int] < 2 ^ 32
   \<and> length (resample22To24 [0, 100, 200, 300]) < 2 ^ 32
   \<and> (3::nat) < length (resample22To24 [0, 100, 200, 300])
   \<and> (let position = ddiv (of_nat 3) (ddiv 24000 22050);
            f = Math_floor position;
            c = min (f + 1) (int (length [0, 100, 200, 300 :: int]) - 1);
            frac = dsub position (of_int f)
        in resample22To24 [0, 100, 200, 300] ! 3 =
             Some (Math_round (dadd (dmul (of_int ([0, 100, 200, 300] ! nat f)) (dsub 1 frac))
                                    (dmul (of_int ([0, 100, 200, 300] ! nat c)) frac))))
   \<and> (24000::rat) \<noteq> 0
   \<and> sampleRate ([\<lparr>data = [1, 2, 3, 4], sampleRate = 48000, channels = 1,
                      samplesPerChannel = Some 4\<rparr>] ! 0) \<noteq> 24000
   \<and> outputSampleCount_of (length (data ([\<lparr>data = [1, 2, 3, 4], sampleRate = 48000, channels = 1,
                      samplesPerChannel = Some 4\<rparr>] ! 0))) (ddiv 48000 24000) = Inr 2
   \<and> (2::nat) < 2 ^ 48
   \<and> (\<exists>fr. returned_frames (push (AudioResampler_new 48000 24000)
            [\<lparr>data = [1, 2, 3, 4], sampleRate = 48000, channels = 1, samplesPerChannel = Some 4\<rparr>] 0)
          = Some [fr]
        \<and> length (data fr) = 2
        \<and> (let position = dmul (of_nat 1) (ddiv 48000 24000);
                 f = Math_floor position;
                 c = min (f + 1) (int (length (data ([\<lparr>data = [1, 2, 3, 4], sampleRate = 48000,
                        channels = 1, samplesPerChannel = Some 4\<rparr>] ! 0))) - 1);
                 frac = dsub position (of_int f)
             in data fr ! 1 =
                  word_of_int
                    (Math_round (dadd (dmul (of_int (sint (data ([\<lparr>data = [1, 2, 3, 4], sampleRate = 48000,
                        channels = 1, samplesPerChannel = Some 4\<rparr>] ! 0) ! nat f))) (dsub 1 frac))
                                      (dmul (of_int (sint (data ([\<lparr>data = [1, 2, 3, 4], sampleRate = 48000,
                        channels = 1, samplesPerChannel = Some 4\<rparr>] ! 0) ! nat c))) frac)))))
   \<and> (\<exists>v. resample22To24 [0, 100, 200, 300] ! 3 = Some v
         \<and> \<bar>v - spec_sample 22050 24000 [0, 100, 200, 300] 3\<bar> \<le> 1)"
proof -
  let ?s48 = "[\<lparr>data = [1, 2, 3, 4], sampleRate = 48000, channels = 1, samplesPerChannel = Some 4\<rparr>]"
  have n: "length [0, 100, 200, 300 :: int] < 2 ^ 32" by simp
  have l: "(3::nat) < length (resample22To24 [0, 100, 200, 300])"
    by (simp add: resample22To24_example)
  have m: "length (resample22To24 [0, 100, 200, 300]) < 2 ^ 32"
    by (simp add: resample22To24_example)
  have z: "(24000::rat) \<noteq> 0" by simp
  have a: "sampleRate (?s48 ! 0) \<noteq> 24000" by simp
  have r2: "ddiv 48000 24000 = 2" using ratio_48000_24000 by (simp only: ratio_new)
  have c: "outputSampleCount_of (length (data (?s48 ! 0))) (ddiv 48000 24000) = Inr 2"
    unfolding r2 using count_at_ratio_2[of "length [1, 2, 3, 4 :: 16 word]"] by simp
  have b: "(2::nat) < 2 ^ 48" by simp
  note w = samples_are_double_interpolations[where samples = "[0, 100, 200, 300]" and store = ?s48 and frame = 0
      and outRate = 24000 and inRate = 48000 and n = 2]
  have s16: "\<forall>x \<in> set [0, 100, 200, 300 :: int]. - 32768 \<le> x \<and> x \<le> 32767" by simp
  note near = w[THEN conjunct2, THEN conjunct2, rule_format, OF n m s16[rule_format] l]
  from w[THEN conjunct2, THEN conjunct1, rule_format, OF z a c b] obtain fr where
    fr: "returned_frames (push (AudioResampler_new 48000 24000) ?s48 0) = Some [fr]"
      "length (data fr) = 2"
      "\<forall>i<2. let position = dmul (of_nat i) (ddiv 48000 24000);
                 f = Math_floor position;
                 c = min (f + 1) (int (length (data (?s48 ! 0))) - 1);
                 frac = dsub position (of_int f)
             in data fr ! i =
                  word_of_int
                    (Math_round (dadd (dmul (of_int (sint (data (?s48 ! 0) ! nat f))) (dsub 1 frac))
                                      (dmul (of_int (sint (data (?s48 ! 0) ! nat c))) frac)))"
    by blast
  have one: "(1::nat) < 2" by simp
  show ?thesis
    using n m l z a c b w[THEN conjunct1, rule_format, OF n m l] fr(1,2) fr(3)[rule_format, OF one] near
    by (intro conjI exI[of _ fr])
qed

lemma resample22To24_tie_example: "resample22To24 [- 72, 8] = [Some (- 72), Some 1]"
  by code_simp

lemma spec_sample_tie_example: "spec_sample 22050 24000 [- 72, 8] 1 = 2"
proof -
  have "\<lfloor>(147::rat) / 160\<rfloor> = 0" by (rule floor_unique) simp_all
  then show ?thesis by (simp add: spec_sample_def Let_def)
qed

lemma count_1_6:
  "outputSampleCount_of (length [0, 9 :: 16 word]) (ratio (AudioResampler_new 1 6)) = Inr 12"
  by code_simp

lemma ratio_1_6: "ratio (AudioResampler_new 1 6) \<noteq> 0"
  by code_simp

lemma push_sample_1_6: "push_sample [0, 9] (ratio (AudioResampler_new 1 6)) 5 = 7"
  by code_simp

lemma spec_sample_1_6: "spec_sample 1 6 [0, 9] 5 = 8"
proof -
  have "\<lfloor>(5::rat) / 6\<rfloor> = 0" by (rule floor_unique) simp_all
  then show ?thesis by (simp add: spec_sample_def Let_def)
qed

lemma spec_sample_double_1_6: "spec_sample_double 1 6 [0, 9] 5 = 8"
  by code_simp

text \<open>
  Claim C1 as the specification states it fails. \<open>AudioResampler\<close> takes the position
  as \<open>i * (inputRate / outputRate)\<close>, not as \<open>i / (outputRate / inputRate)\<close>: with
  the rates 1 and 6 and the samples \<open>[0, 9]\<close>, output index 5 reads the position
  \<open>5 * fl (1 / 6)\<close>, just below \<open>5 / 6\<close>, the interpolation is just below 7.5 and the
  code stores 7, while the specified interpolation is 7.5 and rounds to 8, both in exact
  arithmetic and when the specified formula is evaluated in double arithmetic. For
  \<open>resample22To24\<close> the code is the specified formula in double arithmetic, which
  differs from the exact one: for the input \<open>[-72, 8]\<close> the exact interpolation at index
  1 is \<open>-72 + 80 * 147 / 160 = 1.5\<close>, which rounds to 2, while the double computation
  stays just below 1.5 and the code returns 1.
\<close>

theorem push_and_resample22To24_not_the_specified_interpolation:
  "(\<exists>fr. returned_frames (push (AudioResampler_new 1 6)
            [\<lparr>data = [0, 9], sampleRate = 1, channels = 1, samplesPerChannel = Some 2\<rparr>] 0) = Some [fr]
        \<and> data fr ! 5 = 7
        \<and> data fr ! 5 \<noteq> word_of_int (spec_sample 1 6 [0, 9] 5)
        \<and> data fr ! 5 \<noteq> word_of_int (spec_sample_double 1 6 [0, 9] 5))
   \<and> resample22To24 [- 72, 8] ! 1 = Some 1
   \<and> resample22To24 [- 72, 8] ! 1 \<noteq> Some (spec_sample 22050 24000 [- 72, 8] 1)"
proof -
  let ?out = "\<lparr>data = map (push_sample [0, 9] (ratio (AudioResampler_new 1 6))) [0..<12],
                sampleRate = 6, channels = 1, samplesPerChannel = Some (ddiv (of_nat 12) 1)\<rparr>"
  have r: "returned_frames (push (AudioResampler_new 1 6)
            [\<lparr>data = [0, 9], sampleRate = 1, channels = 1, samplesPerChannel = Some 2\<rparr>] 0)
         = Some [?out]"
    unfolding returned_frames_push
    by (simp only: nth_Cons_0 AudioFrame.simps outputRate_new count_1_6) (simp add: ratio_1_6)
  have d: "data ?out ! 5 = 7" by (simp add: push_sample_1_6)
  have "data ?out ! 5 \<noteq> word_of_int (spec_sample 1 6 [0, 9] 5)"
    "data ?out ! 5 \<noteq> word_of_int (spec_sample_double 1 6 [0, 9] 5)"
    unfolding d spec_sample_1_6 spec_sample_double_1_6 by simp_all
  then have a: "\<exists>fr. returned_frames (push (AudioResampler_new 1 6)
            [\<lparr>data = [0, 9], sampleRate = 1, channels = 1, samplesPerChannel = Some 2\<rparr>] 0) = Some [fr]
        \<and> data fr ! 5 = 7
        \<and> data fr ! 5 \<noteq> word_of_int (spec_sample 1 6 [0, 9] 5)
        \<and> data fr ! 5 \<noteq> word_of_int (spec_sample_double 1 6 [0, 9] 5)"
    using r d by blast
  have b: "resample22To24 [- 72, 8] ! 1 = Some 1" by (simp add: resample22To24_tie_example)
  then have "resample22To24 [- 72, 8] ! 1 \<noteq> Some (spec_sample 22050 24000 [- 72, 8] 1)"
    by (simp only: spec_sample_tie_example) simp
  then show ?thesis using a b by (intro conjI)
qed


section \<open>Range preservation\<close>

text \<open>
  Claim C10, as amended. For every input array of integers of magnitude at most
  \<open>2 ^ 47\<close>, every sample of the output array of \<open>resample22To24\<close> lies between the
  minimum and the maximum of the input samples (an output sample exists only for a
  non-empty input; an array has fewer than \<open>2 ^ 32\<close> elements). In
  particular, when every input sample is in the signed 16-bit range, so is every output
  sample, and the \<open>Int16Array\<close> that \<open>ttsNode\<close> builds from the output holds the same
  values: the store does not wrap.
\<close>

theorem output_within_input_range:
  assumes "length samples < 2 ^ 32"
    and "\<forall>x \<in> set samples. \<bar>x\<bar> \<le> 2 ^ 47"
    and "i < length (resample22To24 samples)"
    and "length (resample22To24 samples) < 2 ^ 32"
  shows "\<exists>v. resample22To24 samples ! i = Some v
           \<and> Min (set samples) \<le> v \<and> v \<le> Max (set samples)
           \<and> ((\<forall>x \<in> set samples. - 32768 \<le> x \<and> x \<le> 32767) \<longrightarrow>
                 - 32768 \<le> v \<and> v \<le> 32767
                 \<and> sint (Int16Array_from (resample22To24 samples) ! i) = v)"
proof -
  obtain v a b where v: "resample22To24 samples ! i = Some v"
    and ab: "a \<in> set samples" "b \<in> set samples" and lo: "min a b \<le> v" and hi: "v \<le> max a b"
    using sample_between_neighbours[OF assms(1,3,2)] by blast
  have "Min (set samples) \<le> a" "Min (set samples) \<le> b" "a \<le> Max (set samples)" "b \<le> Max (set samples)"
    using ab by simp_all
  then have mm: "Min (set samples) \<le> v" "v \<le> Max (set samples)" using lo hi by linarith+
  have "- 32768 \<le> v \<and> v \<le> 32767 \<and> sint (Int16Array_from (resample22To24 samples) ! i) = v"
    if r: "\<forall>x \<in> set samples. - 32768 \<le> x \<and> x \<le> 32767"
  proof -
    have "- 32768 \<le> a" "- 32768 \<le> b" "a \<le> 32767" "b \<le> 32767" using ab r by blast+
    then have b16: "- 32768 \<le> v" "v \<le> 32767" using lo hi by linarith+
    have "Int16Array_from (resample22To24 samples) ! i = word_of_int v"
      using assms(3) v by (simp add: Int16Array_from_def)
    then show ?thesis using b16 by (simp add: sint16_of_int)
  qed
  then show ?thesis using v mm by blast
qed

theorem output_within_input_range_witness:
  "length [0, 100, 200, 300 :: int] < 2 ^ 32
   \<and> length (resample22To24 [0, 100, 200, 300]) < 2 ^ 32
   \<and> (3::nat) < length (resample22To24 [0, 100, 200, 300])
   \<and> (\<exists>v. resample22To24 [0, 100, 200, 300] ! 3 = Some v
         \<and> Min (set [0, 100, 200, 300]) \<le> v \<and> v \<le> Max (set [0, 100, 200, 300])
         \<and> - 32768 \<le> v \<and> v \<le> 32767
         \<and> sint (Int16Array_from (resample22To24 [0, 100, 200, 300]) ! 3) = v)"
proof -
  have n: "length [0, 100, 200, 300 :: int] < 2 ^ 32" by simp
  have l: "(3::nat) < length (resample22To24 [0, 100, 200, 300])"
    by (simp add: resample22To24_example)
  have b: "\<forall>x \<in> set [0, 100, 200, 300 :: int]. \<bar>x\<bar> \<le> 2 ^ 47" by simp
  have r: "\<forall>x \<in> set [0, 100, 200, 300 :: int]. - 32768 \<le> x \<and> x \<le> 32767" by simp
  have m: "length (resample22To24 [0, 100, 200, 300]) < 2 ^ 32"
    by (simp add: resample22To24_example)
  from output_within_input_range[OF n b l m] r have
    "\<exists>v. resample22To24 [0, 100, 200, 300] ! 3 = Some v
         \<and> Min (set [0, 100, 200, 300]) \<le> v \<and> v \<le> Max (set [0, 100, 200, 300])
         \<and> - 32768 \<le> v \<and> v \<le> 32767
         \<and> sint (Int16Array_from (resample22To24 [0, 100, 200, 300]) ! 3) = v"
    by blast
  then show ?thesis using n m l by (intro conjI)
qed

lemma resample22To24_big_example:
  "resample22To24 [9007199254740973, 9007199254740973]
     = [Some 9007199254740973, Some 9007199254740974]"
  by code_simp

text \<open>
  Claim C10 as the specification states it, for every input sequence of integers, fails
  where the rounding error of the double products reaches one unit: the constant input
  \<open>[2 ^ 53 - 19, 2 ^ 53 - 19]\<close> yields \<open>2 ^ 53 - 18\<close> at index 1, above the maximum of
  the input.
\<close>

theorem large_samples_leave_input_range:
  "\<not> (\<forall>i < length (resample22To24 [9007199254740973, 9007199254740973]).
        \<exists>v. resample22To24 [9007199254740973, 9007199254740973] ! i = Some v
           \<and> Min (set [9007199254740973, 9007199254740973]) \<le> v
           \<and> v \<le> Max (set [9007199254740973, 9007199254740973]))"
proof
  assume "\<forall>i < length (resample22To24 [9007199254740973, 9007199254740973]).
        \<exists>v. resample22To24 [9007199254740973, 9007199254740973] ! i = Some v
           \<and> Min (set [9007199254740973, 9007199254740973]) \<le> v
           \<and> v \<le> Max (set [9007199254740973, 9007199254740973])"
  moreover have "1 < length (resample22To24 [9007199254740973, 9007199254740973])"
    by (simp add: resample22To24_big_example)
  ultimately obtain v where "resample22To24 [9007199254740973, 9007199254740973] ! 1 = Some v"
    "v \<le> Max (set [9007199254740973, 9007199254740973])" by blast
  then show False by (simp add: resample22To24_big_example)
qed

section \<open>Monotonicity\<close>

text \<open>
  Claim C6, as amended. For every strictly increasing input array of integers of
  magnitude at most \<open>2 ^ 47\<close>, the output array of \<open>resample22To24\<close> is
  non-decreasing: an earlier output sample is at most any later one (an array has fewer
  than \<open>2 ^ 32\<close> elements).
\<close>

theorem increasing_input_nondecreasing_output:
  assumes n: "length samples < 2 ^ 32"
    and B: "\<forall>x \<in> set samples. \<bar>x\<bar> \<le> 2 ^ 47"
    and inc: "sorted_wrt (<) samples"
    and ij: "i < j" and j: "j < length (resample22To24 samples)"
    and out: "length (resample22To24 samples) < 2 ^ 32"
  shows "\<exists>a b. resample22To24 samples ! i = Some a \<and> resample22To24 samples ! j = Some b \<and> a \<le> b"
proof -
  have i: "i < length (resample22To24 samples)" using ij j by simp
  define si where "si = ddiv (of_nat i) (ddiv 24000 22050)"
  define sj where "sj = ddiv (of_nat j) (ddiv 24000 22050)"
  have i': "i < length samples * 24000 div 22050" using i n by (simp add: length_resample22To24)
  have j': "j < length samples * 24000 div 22050" using j n by (simp add: length_resample22To24)
  have ki: "0 \<le> \<lfloor>si\<rfloor>" "\<lfloor>si\<rfloor> < int (length samples)"
    using srcIndexFloor_range[OF n i'] by (simp_all add: si_def Math_floor_def)
  have kj: "0 \<le> \<lfloor>sj\<rfloor>" "\<lfloor>sj\<rfloor> < int (length samples)"
    using srcIndexFloor_range[OF n j'] by (simp_all add: sj_def Math_floor_def)
  have si0: "0 \<le> si" using srcIndex_range(1)[OF n i'] by (simp add: si_def)
  have sj0: "0 \<le> sj" using srcIndex_range(1)[OF n j'] by (simp add: sj_def)
  have sp: "si + 9 / 10 \<le> sj" using srcIndex_spacing[OF n j' ij] by (simp add: si_def sj_def)
  then have kij: "\<lfloor>si\<rfloor> \<le> \<lfloor>sj\<rfloor>" by (intro floor_mono) simp
  obtain vi where vi: "resample22To24 samples ! i = Some (Math_round vi)"
    "\<bar>vi - interpolate_exact samples si\<bar> \<le> 7 / 32"
    using sample_near_exact[OF n i B] unfolding si_def by blast
  obtain vj where vj: "resample22To24 samples ! j = Some (Math_round vj)"
    "\<bar>vj - interpolate_exact samples sj\<bar> \<le> 7 / 32"
    using sample_near_exact[OF n j B] unfolding sj_def by blast
  define ci where "ci = min (\<lfloor>si\<rfloor> + 1) (int (length samples) - 1)"
  define cj where "cj = min (\<lfloor>sj\<rfloor> + 1) (int (length samples) - 1)"
  have ci: "\<lfloor>si\<rfloor> \<le> ci" "ci < int (length samples)" using ki by (simp_all add: ci_def)
  have cj: "\<lfloor>sj\<rfloor> \<le> cj" "cj < int (length samples)" using kj by (simp_all add: cj_def)
  have "Math_round vi \<le> Math_round vj"
  proof (cases "\<lfloor>si\<rfloor> = \<lfloor>sj\<rfloor>")
    case False
    then have lt: "\<lfloor>si\<rfloor> + 1 \<le> \<lfloor>sj\<rfloor>" using kij by simp
    define K where "K = samples ! nat \<lfloor>sj\<rfloor>"
    have "ci \<le> \<lfloor>sj\<rfloor>" using lt by (simp add: ci_def)
    then have "samples ! nat ci \<le> K" unfolding K_def
      using strictly_increasing_nth[OF inc _ _ kj(2), of ci] ci(1) ki(1) by simp
    moreover have "samples ! nat \<lfloor>si\<rfloor> \<le> K" unfolding K_def
      using strictly_increasing_nth[OF inc ki(1) kij kj(2)] .
    ultimately have "max (samples ! nat \<lfloor>si\<rfloor>) (samples ! nat ci) \<le> K" by simp
    then have "(of_int (max (samples ! nat \<lfloor>si\<rfloor>) (samples ! nat ci)) :: rat) \<le> of_int K"
      by (simp only: of_int_le_iff)
    then have "interpolate_exact samples si \<le> of_int K"
      using interpolate_exact_bounds(2)[OF si0 ki(2)] unfolding ci_def by linarith
    then have "vi \<le> of_int K + 7 / 32" using vi(2) by linarith
    then have a: "Math_round vi \<le> K" by (rule Math_round_le) simp
    have "K \<le> samples ! nat cj" unfolding K_def
      using strictly_increasing_nth[OF inc kj(1) cj] .
    then have "K \<le> min (samples ! nat \<lfloor>sj\<rfloor>) (samples ! nat cj)" by (simp add: K_def)
    then have "(of_int K :: rat) \<le> of_int (min (samples ! nat \<lfloor>sj\<rfloor>) (samples ! nat cj))"
      by (simp only: of_int_le_iff)
    then have "of_int K \<le> interpolate_exact samples sj"
      using interpolate_exact_bounds(1)[OF sj0 kj(2)] unfolding cj_def by linarith
    then have "of_int K - 7 / 32 \<le> vj" using vj(2) by linarith
    then have "K \<le> Math_round vj" by (rule Math_round_ge) simp
    then show ?thesis using a by simp
  next
    case True
    define A :: rat where "A = of_int (samples ! nat \<lfloor>sj\<rfloor>)"
    define C :: rat where "C = of_int (samples ! nat cj)"
    have Li: "interpolate_exact samples si = A + (C - A) * (si - of_int \<lfloor>sj\<rfloor>)"
      unfolding interpolate_exact_def Let_def True A_def C_def cj_def by (rule interpolation_slope)
    have Lj: "interpolate_exact samples sj = A + (C - A) * (sj - of_int \<lfloor>sj\<rfloor>)"
      unfolding interpolate_exact_def Let_def A_def C_def cj_def by (rule interpolation_slope)
    show ?thesis
    proof (cases "\<lfloor>sj\<rfloor> + 1 \<le> int (length samples) - 1")
      case True
      then have "cj = \<lfloor>sj\<rfloor> + 1" by (simp add: cj_def)
      then have "nat \<lfloor>sj\<rfloor> < nat cj" "nat cj < length samples" using kj(1) cj(2) by linarith+
      then have "samples ! nat \<lfloor>sj\<rfloor> < samples ! nat cj"
        using sorted_wrt_nth_less[OF inc] by blast
      then have "samples ! nat \<lfloor>sj\<rfloor> + 1 \<le> samples ! nat cj" by simp
      then have "(of_int (samples ! nat \<lfloor>sj\<rfloor> + 1) :: rat) \<le> of_int (samples ! nat cj)"
        by (simp only: of_int_le_iff)
      then have CA: "1 \<le> C - A" by (simp add: A_def C_def)
      have d: "9 / 10 \<le> sj - si" using sp by simp
      have "sj - si \<le> (C - A) * (sj - si)"
        using mult_right_mono[of 1 "C - A" "sj - si"] CA d by simp
      then have "9 / 10 \<le> (C - A) * (sj - si)" using d by linarith
      moreover have "(C - A) * (sj - of_int \<lfloor>sj\<rfloor>) - (C - A) * (si - of_int \<lfloor>sj\<rfloor>)
          = (C - A) * (sj - si)" by (rule slope_difference)
      ultimately have "interpolate_exact samples si + 9 / 10 \<le> interpolate_exact samples sj"
        unfolding Li Lj by linarith
      then have "vi \<le> vj" using vi(2) vj(2) by linarith
      then show ?thesis by (rule Math_round_mono)
    next
      case False
      then have "cj = \<lfloor>sj\<rfloor>" using kj(2) by (simp add: cj_def)
      then have "C = A" by (simp add: A_def C_def)
      then have L: "interpolate_exact samples si = of_int (samples ! nat \<lfloor>sj\<rfloor>)"
        "interpolate_exact samples sj = of_int (samples ! nat \<lfloor>sj\<rfloor>)"
        unfolding Li Lj by (simp_all add: A_def)
      have "vi \<le> of_int (samples ! nat \<lfloor>sj\<rfloor>) + 7 / 32" using vi(2) L(1) by linarith
      then have a: "Math_round vi \<le> samples ! nat \<lfloor>sj\<rfloor>" by (rule Math_round_le) simp
      have "of_int (samples ! nat \<lfloor>sj\<rfloor>) - 7 / 32 \<le> vj" using vj(2) L(2) by linarith
      then have "samples ! nat \<lfloor>sj\<rfloor> \<le> Math_round vj" by (rule Math_round_ge) simp
      then show ?thesis using a by simp
    qed
  qed
  then show ?thesis using vi(1) vj(1) by blast
qed

theorem increasing_input_nondecreasing_output_witness:
  "length [0, 100, 200, 300 :: int] < 2 ^ 32
   \<and> length (resample22To24 [0, 100, 200, 300]) < 2 ^ 32
   \<and> sorted_wrt (<) [0, 100, 200, 300 :: int]
   \<and> (1::nat) < 3
   \<and> (3::nat) < length (resample22To24 [0, 100, 200, 300])
   \<and> (\<exists>a b. resample22To24 [0, 100, 200, 300] ! 1 = Some a
           \<and> resample22To24 [0, 100, 200, 300] ! 3 = Some b \<and> a \<le> b)"
proof -
  have n: "length [0, 100, 200, 300 :: int] < 2 ^ 32" by simp
  have l: "(3::nat) < length (resample22To24 [0, 100, 200, 300])"
    by (simp add: resample22To24_example)
  have b: "\<forall>x \<in> set [0, 100, 200, 300 :: int]. \<bar>x\<bar> \<le> 2 ^ 47" by simp
  have s: "sorted_wrt (<) [0, 100, 200, 300 :: int]" by simp
  have o: "(1::nat) < 3" by simp
  have m: "length (resample22To24 [0, 100, 200, 300]) < 2 ^ 32"
    by (simp add: resample22To24_example)
  show ?thesis
    using n m s o l increasing_input_nondecreasing_output[OF n b s o l m] by (intro conjI)
qed

lemma increasing_example_11:
  "resample_sample [0, 1, 2, 3, 4, 5, 6, 7, 8, 9, 7121980952729304, 7121980952729305]
     (ddiv 24000 22050) 11 = Some 7121980952729305"
  by code_simp

lemma increasing_example_12:
  "resample_sample [0, 1, 2, 3, 4, 5, 6, 7, 8, 9, 7121980952729304, 7121980952729305]
     (ddiv 24000 22050) 12 = Some 7121980952729304"
  by code_simp

text \<open>
  Claim C6 as the specification states it, for every strictly increasing input sequence,
  fails for samples near \<open>2 ^ 53\<close>: the strictly increasing input below yields
  7121980952729305 at index 11 and 7121980952729304 at index 12, where both source
  samples are the last one and the rounded products no longer add up to it.
\<close>

theorem large_increasing_input_decreasing_output:
  "\<not> (sorted_wrt (<) [0, 1, 2, 3, 4, 5, 6, 7, 8, 9, 7121980952729304, 7121980952729305 :: int] \<longrightarrow>
      (\<forall>i j. i < j \<and> j < length (resample22To24
                  [0, 1, 2, 3, 4, 5, 6, 7, 8, 9, 7121980952729304, 7121980952729305]) \<longrightarrow>
         (\<exists>a b. resample22To24 [0, 1, 2, 3, 4, 5, 6, 7, 8, 9, 7121980952729304, 7121980952729305] ! i = Some a
            \<and> resample22To24 [0, 1, 2, 3, 4, 5, 6, 7, 8, 9, 7121980952729304, 7121980952729305] ! j = Some b
            \<and> a \<le> b)))"
proof
  let ?xs = "[0, 1, 2, 3, 4, 5, 6, 7, 8, 9, 7121980952729304, 7121980952729305 :: int]"
  assume H: "sorted_wrt (<) ?xs \<longrightarrow>
      (\<forall>i j. i < j \<and> j < length (resample22To24 ?xs) \<longrightarrow>
         (\<exists>a b. resample22To24 ?xs ! i = Some a \<and> resample22To24 ?xs ! j = Some b \<and> a \<le> b))"
  have s: "sorted_wrt (<) ?xs" by simp
  have len: "length (resample22To24 ?xs) = 13"
    using length_resample22To24[of ?xs] by simp
  have a: "resample22To24 ?xs ! 11 = Some 7121980952729305"
    using nth_resample22To24[of 11 ?xs] len increasing_example_11 by simp
  have b: "resample22To24 ?xs ! 12 = Some 7121980952729304"
    using nth_resample22To24[of 12 ?xs] len increasing_example_12 by simp
  have "(11::nat) < 12 \<and> 12 < length (resample22To24 ?xs)" using len by simp
  with H s obtain x y where "resample22To24 ?xs ! 11 = Some x" "resample22To24 ?xs ! 12 = Some y" "x \<le> y"
    by blast
  then show False using a b by simp
qed

section \<open>The concrete case of the specification\<close>

text \<open>
  Claim C3, as amended. Resampling \<open>[0, 100, 200, 300]\<close> from 22050 to 24000 yields
  four samples, the first is 0, and the last is 276: output index 3 reads the source
  position \<open>3 * 22050 / 24000\<close>, about 2.756, between the samples 200 and 300.
\<close>

theorem resample22To24_concrete_case:
  "length (resample22To24 [0, 100, 200, 300]) = 4
   \<and> hd (resample22To24 [0, 100, 200, 300]) = Some 0
   \<and> last (resample22To24 [0, 100, 200, 300]) = Some 276"
  by (simp add: resample22To24_example)

text \<open>
  Claim C3 as the specification states it fails: the last sample, 276, is not 300 up to
  rounding.
\<close>

theorem resample22To24_last_not_300:
  "\<not> (length (resample22To24 [0, 100, 200, 300]) = 4
      \<and> hd (resample22To24 [0, 100, 200, 300]) = Some 0
      \<and> (\<exists>v. last (resample22To24 [0, 100, 200, 300]) = Some v \<and> approximately v 300))"
  by (simp add: resample22To24_example approximately_def)

end
